theory Spec2Isabelle
  imports Main "HOL-Library.Multiset" "HOL-Library.Product_Lexorder"
begin

section \<open>Data model of the queue state manager (QueueContext.tsx)\<close>

text \<open>
  The three collections of \<^verbatim>\<open>QueueProvider\<close> are lists of records. The numbers of
  the source (ticket sequence numbers, counts, counter ids, millisecond timestamps)
  are integer-valued doubles and are modelled as integers; where the source adds to a
  stored number the sum is rounded as a double is (\<open>numberAdd\<close> below), and where it
  prints one the digits are the decimal digits up to \<open>2^53\<close> and the engine's beyond
  (\<open>toString\<close> below). An optional field (\<^verbatim>\<open>field?: T\<close>) is an \<open>option\<close>.
  Field names follow the source; \<^verbatim>\<open>id\<close>, \<^verbatim>\<open>name\<close>, \<^verbatim>\<open>status\<close> and the counter's
  \<^verbatim>\<open>serviceType\<close> occur in several types and carry the type's name as a prefix, as
  does the ticket's \<^verbatim>\<open>notes\<close> (a reserved word of Isabelle).
\<close>

datatype CounterStatus = Active | Inactive

datatype TicketStatus = Waiting | Serving | Completed

datatype Priority = Normal | Urgent | Vip

record ServiceType =
  service_id :: string
  service_name :: string
  prefix :: string
  currentNumber :: int
  served :: int
  waiting :: int

record Counter =
  counter_id :: int
  counter_name :: string
  counter_status :: CounterStatus
  currentlyServing :: "string option"
  counter_serviceType :: "string option"

record QueueTicket =
  ticket_id :: string
  number :: string
  serviceType :: string
  ticket_status :: TicketStatus
  timestamp :: int
  counterAssigned :: "int option"
  customerName :: "string option"
  purpose :: "string option"
  priority :: Priority
  estimatedWaitTime :: "int option"
  calledAt :: "int option"
  completedAt :: "int option"
  ticket_notes :: "string option"

text \<open>The React state of the provider: \<^verbatim>\<open>services\<close>, \<^verbatim>\<open>counters\<close>, \<^verbatim>\<open>queue\<close>.\<close>

record QueueState =
  services :: "ServiceType list"
  counters :: "Counter list"
  queue :: "QueueTicket list"

text \<open>
  \<^verbatim>\<open>Partial<QueueTicket>\<close>, the argument of \<^verbatim>\<open>updateTicket\<close>: every key may be absent
  (\<open>None\<close>). For the optional fields of a ticket a present key may itself carry
  \<^verbatim>\<open>undefined\<close> (\<open>Some None\<close>).
\<close>

record TicketUpdates =
  u_id :: "string option"
  u_number :: "string option"
  u_serviceType :: "string option"
  u_status :: "TicketStatus option"
  u_timestamp :: "int option"
  u_counterAssigned :: "int option option"
  u_customerName :: "string option option"
  u_purpose :: "string option option"
  u_priority :: "Priority option"
  u_estimatedWaitTime :: "int option option"
  u_calledAt :: "int option option"
  u_completedAt :: "int option option"
  u_notes :: "string option option"

section \<open>JavaScript library functions used by the source\<close>

text \<open>The decimal digits of an integer, with a minus sign if it is negative.\<close>

fun digits :: "nat \<Rightarrow> string" where
  "digits n = (if n < 10 then [''0123456789'' ! n]
               else digits (n div 10) @ [''0123456789'' ! (n mod 10)])"

declare digits.simps [simp del]

definition decimal :: "int \<Rightarrow> string" where
  "decimal i = (if i < 0 then CHR ''-'' # digits (nat (- i)) else digits (nat i))"

text \<open>\<^verbatim>\<open>String.prototype.padStart(n, c)\<close> with a one-character filler.\<close>

definition padStart :: "nat \<Rightarrow> char \<Rightarrow> string \<Rightarrow> string" where
  "padStart n c s = replicate (n - length s) c @ s"

text \<open>\<^verbatim>\<open>Array.prototype.findIndex\<close>: the first index whose element satisfies \<open>P\<close>, or \<open>-1\<close>.\<close>

fun findIndex :: "('a \<Rightarrow> bool) \<Rightarrow> 'a list \<Rightarrow> int" where
  "findIndex P [] = - 1"
| "findIndex P (x # xs) =
     (if P x then 0 else (let r = findIndex P xs in if r < 0 then - 1 else r + 1))"

text \<open>
  \<^verbatim>\<open>Array.prototype.sort(cmp)\<close>. ECMAScript (2019 and later) requires the sort to be
  stable, so for a comparator that is a consistent ordering of the array's values the
  result is determined: it is the stable sort, and \<open>sort_js\<close> computes it as an
  insertion sort driven by the sign of the comparator (\<open>sort_js_sort_key\<close> below
  identifies it with the library's stable \<open>sort_key\<close>). \<open>consistentOn\<close> is the
  standard's definition of a consistent comparator for the values of an array. For a
  comparator that is not consistent the standard leaves the order to the engine:
  \<open>arraySort\<close> then returns what the engine's ordering returns, which is some
  permutation of the array (an ordering that returns anything else is no engine's and
  is not used).
\<close>

fun insert_js :: "('a \<Rightarrow> 'a \<Rightarrow> int) \<Rightarrow> 'a \<Rightarrow> 'a list \<Rightarrow> 'a list" where
  "insert_js cmp x [] = [x]"
| "insert_js cmp x (y # ys) =
     (if cmp x y \<le> 0 then x # y # ys else y # insert_js cmp x ys)"

definition sort_js :: "('a \<Rightarrow> 'a \<Rightarrow> int) \<Rightarrow> 'a list \<Rightarrow> 'a list" where
  "sort_js cmp xs = foldr (insert_js cmp) xs []"

definition consistentOn :: "('a \<Rightarrow> 'a \<Rightarrow> int) \<Rightarrow> 'a list \<Rightarrow> bool" where
  "consistentOn cmp xs \<longleftrightarrow>
     (\<forall>a \<in> set xs. cmp a a = 0)
     \<and> (\<forall>a \<in> set xs. \<forall>b \<in> set xs. cmp a b = 0 \<longrightarrow> cmp b a = 0)
     \<and> (\<forall>a \<in> set xs. \<forall>b \<in> set xs. \<forall>c \<in> set xs.
           (cmp a b = 0 \<and> cmp b c = 0 \<longrightarrow> cmp a c = 0)
           \<and> (cmp a b < 0 \<and> cmp b c < 0 \<longrightarrow> cmp a c < 0)
           \<and> (cmp a b > 0 \<and> cmp b c > 0 \<longrightarrow> cmp a c > 0))"

definition arraySort ::
  "(('a \<Rightarrow> 'a \<Rightarrow> int) \<Rightarrow> 'a list \<Rightarrow> 'a list) \<Rightarrow> ('a \<Rightarrow> 'a \<Rightarrow> int) \<Rightarrow> 'a list \<Rightarrow> 'a list" where
  "arraySort arrange cmp xs =
     (if consistentOn cmp xs then sort_js cmp xs
      else (let ys = arrange cmp xs in if mset ys = mset xs then ys else sort_js cmp xs))"

text \<open>
  The numbers of the source are IEEE 754 doubles. A sum of two integers is the exact
  sum rounded to the nearest double, ties to the even significand; up to magnitude
  \<open>2^53\<close> every integer is a double and the sum is exact. \<open>ulp a\<close> is the distance
  between neighbouring doubles at magnitude \<open>a\<close>. (The stored numbers of the source are
  doubles; adding one to a double never leaves the finite range.)
\<close>

fun ulp :: "nat \<Rightarrow> nat" where
  "ulp a = (if a < 2 ^ 53 then 1 else 2 * ulp (a div 2))"

declare ulp.simps [simp del]

definition roundDouble :: "int \<Rightarrow> int" where
  "roundDouble x =
     (let a = nat \<bar>x\<bar>; u = ulp a; q = a div u; r = a mod u;
          m = (if 2 * r < u \<or> (2 * r = u \<and> even q) then q else q + 1)
      in sgn x * int (m * u))"

definition numberAdd :: "int \<Rightarrow> int \<Rightarrow> int" where
  "numberAdd a b = roundDouble (a + b)"

text \<open>
  What the source leaves to the JavaScript engine: the order in which
  \<^verbatim>\<open>Array.prototype.sort\<close> leaves the queue when the comparator is not consistent, and
  the characters \<^verbatim>\<open>Number.prototype.toString\<close> prints for a magnitude beyond \<open>2^53\<close>
  (the shortest digits that read back as the same double, in exponent notation from
  \<open>10^21\<close>). Up to \<open>2^53\<close> it prints the decimal digits.
\<close>

record Engine =
  engineOrder :: "(QueueTicket \<Rightarrow> QueueTicket \<Rightarrow> int) \<Rightarrow> QueueTicket list \<Rightarrow> QueueTicket list"
  engineDigits :: "int \<Rightarrow> string"

definition toString :: "Engine \<Rightarrow> int \<Rightarrow> string" where
  "toString engine i = (if \<bar>i\<bar> \<le> 2 ^ 53 then decimal i else engineDigits engine i)"

section \<open>Comparators of the source\<close>

text \<open>\<^verbatim>\<open>const priorityOrder = { vip: 3, urgent: 2, normal: 1 }\<close>\<close>

fun priorityOrder :: "Priority \<Rightarrow> int" where
  "priorityOrder Vip = 3"
| "priorityOrder Urgent = 2"
| "priorityOrder Normal = 1"

text \<open>
  The comparator of \<^verbatim>\<open>callNext\<close>: priority descending, then timestamp ascending. It is
  consistent on every array (\<open>comparePriority_consistent\<close> below), as is the timestamp
  comparator, so where the source sorts with either the result is \<open>sort_js\<close> on every
  engine. (The source's differences are doubles; rounding does not change their sign.)
\<close>

definition comparePriority :: "QueueTicket \<Rightarrow> QueueTicket \<Rightarrow> int" where
  "comparePriority a b =
     (let aPriority = priorityOrder (priority a);
          bPriority = priorityOrder (priority b)
      in if aPriority \<noteq> bPriority then bPriority - aPriority
         else timestamp a - timestamp b)"

text \<open>
  The comparator of \<^verbatim>\<open>addToQueue\<close>: the same, after the guard
  \<^verbatim>\<open>if (a.status !== "waiting" || b.status !== "waiting") return 0\<close>. With tickets
  that are not waiting in the array it is in general not consistent.
\<close>

definition compareQueue :: "QueueTicket \<Rightarrow> QueueTicket \<Rightarrow> int" where
  "compareQueue a b =
     (if ticket_status a \<noteq> Waiting \<or> ticket_status b \<noteq> Waiting then 0
      else comparePriority a b)"

text \<open>The comparator of \<^verbatim>\<open>getTicketPosition\<close> and \<^verbatim>\<open>getAllWaitingTickets\<close>.\<close>

definition compareTimestamp :: "QueueTicket \<Rightarrow> QueueTicket \<Rightarrow> int" where
  "compareTimestamp a b = timestamp a - timestamp b"

section \<open>Read-only queries\<close>

definition getWaitingCount :: "QueueState \<Rightarrow> string \<Rightarrow> int" where
  "getWaitingCount st sType =
     int (length (filter (\<lambda>ticket. serviceType ticket = sType \<and> ticket_status ticket = Waiting)
                         (queue st)))"

definition getTicketPosition :: "QueueState \<Rightarrow> string \<Rightarrow> int option" where
  "getTicketPosition st ticketId =
     (case find (\<lambda>t. ticket_id t = ticketId) (queue st) of
        None \<Rightarrow> None
      | Some ticket \<Rightarrow>
          if ticket_status ticket \<noteq> Waiting then None
          else
            (let waitingTickets =
                   sort_js compareTimestamp
                     (filter (\<lambda>t. serviceType t = serviceType ticket \<and> ticket_status t = Waiting)
                             (queue st))
             in Some (findIndex (\<lambda>t. ticket_id t = ticketId) waitingTickets + 1)))"

definition getAllWaitingTickets :: "QueueState \<Rightarrow> QueueTicket list" where
  "getAllWaitingTickets st =
     sort_js compareTimestamp (filter (\<lambda>ticket. ticket_status ticket = Waiting) (queue st))"

definition getServiceByPrefix :: "QueueState \<Rightarrow> string \<Rightarrow> ServiceType option" where
  "getServiceByPrefix st p = find (\<lambda>service. prefix service = p) (services st)"

definition getTicketById :: "QueueState \<Rightarrow> string \<Rightarrow> QueueTicket option" where
  "getTicketById st ticketId = find (\<lambda>ticket. ticket_id ticket = ticketId) (queue st)"

definition getEstimatedWaitTime :: "QueueState \<Rightarrow> string \<Rightarrow> int" where
  "getEstimatedWaitTime st sType = getWaitingCount st sType * 5"

section \<open>Mutating operations\<close>

text \<open>
  Each operation takes the state of the render in which it is called and returns the
  state after its \<^verbatim>\<open>setQueue\<close>/\<^verbatim>\<open>setCounters\<close>/\<^verbatim>\<open>setServices\<close> updates have been applied
  (one operation per render, the single-threaded model of the provider). The clock
  is an input: every \<^verbatim>\<open>Date.now()\<close> and \<^verbatim>\<open>new Date()\<close> of the source is an argument, in
  the order in which the source reads them.
\<close>

text \<open>
  \<^verbatim>\<open>addToQueue\<close>: \<open>idNow\<close> is the \<^verbatim>\<open>Date.now()\<close> of the ticket id, \<open>tsNow\<close> the
  \<^verbatim>\<open>new Date()\<close> of the timestamp; an omitted priority (\<open>None\<close>) defaults to normal;
  \<open>engine\<close> is the engine the call runs on.
\<close>

definition addToQueue ::
  "Engine \<Rightarrow> int \<Rightarrow> int \<Rightarrow> string \<Rightarrow> string option \<Rightarrow> string option \<Rightarrow> Priority option
   \<Rightarrow> QueueState \<Rightarrow> string \<times> QueueState" where
  "addToQueue engine idNow tsNow sType cName purp prio st =
     (case find (\<lambda>s. service_id s = sType) (services st) of
        None \<Rightarrow> ('''', st)
      | Some service \<Rightarrow>
          (let newNumber = numberAdd (currentNumber service) 1;
               ticketNumber = prefix service @ padStart 3 (CHR ''0'') (toString engine newNumber);
               waitingCount = getWaitingCount st sType;
               avgServiceTime = 5;
               estimatedWait = waitingCount * avgServiceTime;
               newTicket = \<lparr> ticket_id = sType @ ''-'' @ toString engine idNow,
                             number = ticketNumber,
                             serviceType = sType,
                             ticket_status = Waiting,
                             timestamp = tsNow,
                             counterAssigned = None,
                             customerName = cName,
                             purpose = purp,
                             priority = (case prio of None \<Rightarrow> Normal | Some p \<Rightarrow> p),
                             estimatedWaitTime = Some estimatedWait,
                             calledAt = None,
                             completedAt = None,
                             ticket_notes = None \<rparr>
           in (ticketNumber,
               st \<lparr> queue := arraySort (engineOrder engine) compareQueue (queue st @ [newTicket]),
                    services := map (\<lambda>s. if service_id s = sType
                                          then s \<lparr> currentNumber := newNumber \<rparr> else s)
                                    (services st) \<rparr>)))"

text \<open>\<^verbatim>\<open>callNext\<close>: \<open>now\<close> is the \<^verbatim>\<open>new Date()\<close> stored in \<^verbatim>\<open>calledAt\<close>.\<close>

definition callNext ::
  "int \<Rightarrow> string \<Rightarrow> int \<Rightarrow> QueueState \<Rightarrow> QueueTicket option \<times> QueueState" where
  "callNext counterId sType now st =
     (let waitingTickets =
            sort_js comparePriority
              (filter (\<lambda>ticket. serviceType ticket = sType \<and> ticket_status ticket = Waiting)
                      (queue st))
      in case waitingTickets of
           [] \<Rightarrow> (None, st)
         | nextTicket # _ \<Rightarrow>
             (case find (\<lambda>c. counter_id c = counterId) (counters st) of
                None \<Rightarrow> (None, st)
              | Some counter \<Rightarrow>
                  if counter_status counter \<noteq> Active then (None, st)
                  else
                    (Some nextTicket,
                     st \<lparr> queue := map (\<lambda>ticket.
                                     if ticket_id ticket = ticket_id nextTicket
                                     then ticket \<lparr> ticket_status := Serving,
                                                  counterAssigned := Some counterId,
                                                  calledAt := Some now \<rparr>
                                     else ticket) (queue st),
                          counters := map (\<lambda>counter.
                                     if counter_id counter = counterId
                                     then counter \<lparr> currentlyServing := Some (number nextTicket) \<rparr>
                                     else counter) (counters st) \<rparr>)))"

text \<open>
  \<^verbatim>\<open>completeService\<close>: \<open>now\<close> is the \<^verbatim>\<open>new Date()\<close> stored in \<^verbatim>\<open>completedAt\<close>. The
  guard \<^verbatim>\<open>if (ticket.counterAssigned)\<close> is JavaScript truthiness of
  \<^verbatim>\<open>number | undefined\<close>: false for \<^verbatim>\<open>undefined\<close> and for \<open>0\<close>.
\<close>

definition truthy :: "int option \<Rightarrow> bool" where
  "truthy v = (case v of None \<Rightarrow> False | Some n \<Rightarrow> n \<noteq> 0)"

definition completeService ::
  "string \<Rightarrow> string option \<Rightarrow> int \<Rightarrow> QueueState \<Rightarrow> QueueState" where
  "completeService ticketId nts now st =
     (case find (\<lambda>t. ticket_id t = ticketId) (queue st) of
        None \<Rightarrow> st
      | Some ticket \<Rightarrow>
          if ticket_status ticket \<noteq> Serving then st
          else
            (let st1 = st \<lparr> queue := map (\<lambda>t.
                                 if ticket_id t = ticketId
                                 then t \<lparr> ticket_status := Completed,
                                         completedAt := Some now,
                                         ticket_notes := nts \<rparr>
                                 else t) (queue st) \<rparr>
             in if truthy (counterAssigned ticket)
                then st1 \<lparr> counters := map (\<lambda>counter.
                                  if Some (counter_id counter) = counterAssigned ticket
                                  then counter \<lparr> currentlyServing := None \<rparr>
                                  else counter) (counters st),
                           services := map (\<lambda>service.
                                  if service_id service = serviceType ticket
                                  then service \<lparr> served := numberAdd (served service) 1 \<rparr>
                                  else service) (services st) \<rparr>
                else st1))"

definition setCounterStatus :: "int \<Rightarrow> CounterStatus \<Rightarrow> QueueState \<Rightarrow> QueueState" where
  "setCounterStatus counterId status st =
     st \<lparr> counters := map (\<lambda>counter.
             if counter_id counter = counterId then counter \<lparr> counter_status := status \<rparr>
             else counter) (counters st) \<rparr>"

definition setCounterService :: "int \<Rightarrow> string option \<Rightarrow> QueueState \<Rightarrow> QueueState" where
  "setCounterService counterId sType st =
     st \<lparr> counters := map (\<lambda>counter.
             if counter_id counter = counterId then counter \<lparr> counter_serviceType := sType \<rparr>
             else counter) (counters st) \<rparr>"

text \<open>The object spread \<^verbatim>\<open>{ ...ticket, ...updates }\<close>: a present key overrides the field.\<close>

definition override :: "'a \<Rightarrow> 'a option \<Rightarrow> 'a" where
  "override old upd = (case upd of None \<Rightarrow> old | Some v \<Rightarrow> v)"

definition applyUpdates :: "QueueTicket \<Rightarrow> TicketUpdates \<Rightarrow> QueueTicket" where
  "applyUpdates ticket updates =
     \<lparr> ticket_id = override (ticket_id ticket) (u_id updates),
       number = override (number ticket) (u_number updates),
       serviceType = override (serviceType ticket) (u_serviceType updates),
       ticket_status = override (ticket_status ticket) (u_status updates),
       timestamp = override (timestamp ticket) (u_timestamp updates),
       counterAssigned = override (counterAssigned ticket) (u_counterAssigned updates),
       customerName = override (customerName ticket) (u_customerName updates),
       purpose = override (purpose ticket) (u_purpose updates),
       priority = override (priority ticket) (u_priority updates),
       estimatedWaitTime = override (estimatedWaitTime ticket) (u_estimatedWaitTime updates),
       calledAt = override (calledAt ticket) (u_calledAt updates),
       completedAt = override (completedAt ticket) (u_completedAt updates),
       ticket_notes = override (ticket_notes ticket) (u_notes updates) \<rparr>"

definition updateTicket :: "string \<Rightarrow> TicketUpdates \<Rightarrow> QueueState \<Rightarrow> QueueState" where
  "updateTicket ticketId updates st =
     st \<lparr> queue := map (\<lambda>ticket.
             if ticket_id ticket = ticketId then applyUpdates ticket updates else ticket)
           (queue st) \<rparr>"

text \<open>The seed values of the provider and of \<^verbatim>\<open>clearAllData\<close>.\<close>

definition initialServices :: "ServiceType list" where
  "initialServices =
     [\<lparr> service_id = ''general'', service_name = ''Pelayanan Umum'', prefix = ''A'',
        currentNumber = 0, served = 0, waiting = 0 \<rparr>,
      \<lparr> service_id = ''facility'', service_name = ''Fasilitas'', prefix = ''D'',
        currentNumber = 0, served = 0, waiting = 0 \<rparr>]"

definition initialCounters :: "Counter list" where
  "initialCounters =
     [\<lparr> counter_id = 1, counter_name = ''Counter 1'', counter_status = Active,
        currentlyServing = None, counter_serviceType = None \<rparr>,
      \<lparr> counter_id = 2, counter_name = ''Counter 2'', counter_status = Active,
        currentlyServing = None, counter_serviceType = None \<rparr>,
      \<lparr> counter_id = 3, counter_name = ''Counter 3'', counter_status = Inactive,
        currentlyServing = None, counter_serviceType = None \<rparr>,
      \<lparr> counter_id = 4, counter_name = ''Counter 4'', counter_status = Inactive,
        currentlyServing = None, counter_serviceType = None \<rparr>]"

text \<open>The state of a first run: nothing in \<^verbatim>\<open>localStorage\<close>, so the defaults are used.\<close>

definition seededState :: QueueState where
  "seededState = \<lparr> services = initialServices, counters = initialCounters, queue = [] \<rparr>"

definition clearAllData :: "QueueState \<Rightarrow> QueueState" where
  "clearAllData st = \<lparr> services = initialServices, counters = initialCounters, queue = [] \<rparr>"

section \<open>The waiting-count effect\<close>

text \<open>
  The \<^verbatim>\<open>useEffect\<close> on \<^verbatim>\<open>[queue, services]\<close>: recompute every service's \<^verbatim>\<open>waiting\<close> from
  the queue and store the result only if some count changed.
\<close>

definition recomputeWaiting :: "QueueState \<Rightarrow> QueueState" where
  "recomputeWaiting st =
     (let updatedServices =
            map (\<lambda>service.
                   service \<lparr> waiting :=
                     int (length (filter (\<lambda>ticket. serviceType ticket = service_id service
                                                   \<and> ticket_status ticket = Waiting)
                                         (queue st))) \<rparr>)
                (services st);
          hasChanged = list_ex (\<lambda>(service, updated). waiting service \<noteq> waiting updated)
                               (zip (services st) updatedServices)
      in if hasChanged then st \<lparr> services := updatedServices \<rparr> else st)"

section \<open>The public interface as operations on the state\<close>

datatype Operation =
    AddToQueue Engine int int string "string option" "string option" "Priority option"
  | CallNext int string int
  | CompleteService string "string option" int
  | UpdateTicket string TicketUpdates
  | SetCounterStatus int CounterStatus
  | SetCounterService int "string option"
  | ClearAllData

text \<open>
  One call of the public interface, followed by the waiting-count effect. A call of
  \<^verbatim>\<open>addToQueue\<close> carries its clock readings and the engine it runs on.
\<close>

fun perform :: "Operation \<Rightarrow> QueueState \<Rightarrow> QueueState" where
  "perform (AddToQueue engine idNow tsNow sType cName purp prio) st =
     recomputeWaiting (snd (addToQueue engine idNow tsNow sType cName purp prio st))"
| "perform (CallNext counterId sType now) st =
     recomputeWaiting (snd (callNext counterId sType now st))"
| "perform (CompleteService ticketId nts now) st =
     recomputeWaiting (completeService ticketId nts now st)"
| "perform (UpdateTicket ticketId updates) st =
     recomputeWaiting (updateTicket ticketId updates st)"
| "perform (SetCounterStatus counterId status) st =
     recomputeWaiting (setCounterStatus counterId status st)"
| "perform (SetCounterService counterId sType) st =
     recomputeWaiting (setCounterService counterId sType st)"
| "perform ClearAllData st = recomputeWaiting (clearAllData st)"

section \<open>Definitions used in the statements\<close>

text \<open>
  The sort key of the priority comparator: priority descending (the negated
  \<open>priorityOrder\<close>), then timestamp ascending, in the lexicographic order of pairs.
\<close>

definition priorityKey :: "QueueTicket \<Rightarrow> int \<times> int" where
  "priorityKey t = (- priorityOrder (priority t), timestamp t)"

text \<open>
  An engine to run concrete calls on: it leaves an inconsistently compared array as it
  is and prints decimal digits throughout.
\<close>

definition sampleEngine :: Engine where
  "sampleEngine = \<lparr> engineOrder = (\<lambda>cmp xs. xs), engineDigits = decimal \<rparr>"

text \<open>Concrete states: the seeded state after Alice's ticket, before and after the effect.\<close>

definition oneWaiting :: QueueState where
  "oneWaiting =
     \<lparr> services = [\<lparr> service_id = ''general'', service_name = ''Pelayanan Umum'', prefix = ''A'',
                     currentNumber = 1, served = 0, waiting = 0 \<rparr>,
                   \<lparr> service_id = ''facility'', service_name = ''Fasilitas'', prefix = ''D'',
                     currentNumber = 0, served = 0, waiting = 0 \<rparr>],
       counters = initialCounters,
       queue = [\<lparr> ticket_id = ''general-1000'', number = ''A001'', serviceType = ''general'',
                  ticket_status = Waiting, timestamp = 1000, counterAssigned = None,
                  customerName = Some ''Alice'', purpose = Some ''renew ID'', priority = Normal,
                  estimatedWaitTime = Some 0, calledAt = None, completedAt = None,
                  ticket_notes = None \<rparr>] \<rparr>"

definition oneWaitingSettled :: QueueState where
  "oneWaitingSettled =
     \<lparr> services = [\<lparr> service_id = ''general'', service_name = ''Pelayanan Umum'', prefix = ''A'',
                     currentNumber = 1, served = 0, waiting = 1 \<rparr>,
                   \<lparr> service_id = ''facility'', service_name = ''Fasilitas'', prefix = ''D'',
                     currentNumber = 0, served = 0, waiting = 0 \<rparr>],
       counters = initialCounters,
       queue = [\<lparr> ticket_id = ''general-1000'', number = ''A001'', serviceType = ''general'',
                  ticket_status = Waiting, timestamp = 1000, counterAssigned = None,
                  customerName = Some ''Alice'', purpose = Some ''renew ID'', priority = Normal,
                  estimatedWaitTime = Some 0, calledAt = None, completedAt = None,
                  ticket_notes = None \<rparr>] \<rparr>"

text \<open>
  The order of service in the words of the specification: a ticket is served before
  another if its priority is higher (vip over urgent over normal), or if the
  priorities are equal and it was created no later.
\<close>

fun outranks :: "Priority \<Rightarrow> Priority \<Rightarrow> bool" where
  "outranks Vip Urgent = True"
| "outranks Vip Normal = True"
| "outranks Urgent Normal = True"
| "outranks _ _ = False"

definition servedBefore :: "QueueTicket \<Rightarrow> QueueTicket \<Rightarrow> bool" where
  "servedBefore a b \<longleftrightarrow>
     outranks (priority a) (priority b)
     \<or> (priority a = priority b \<and> timestamp a \<le> timestamp b)"

text \<open>The ticket that \<^verbatim>\<open>callNext\<close> selects: the head of the sorted waiting list of the service.\<close>

definition nextWaiting :: "QueueState \<Rightarrow> string \<Rightarrow> QueueTicket" where
  "nextWaiting st sType =
     hd (sort_key priorityKey
           (filter (\<lambda>ticket. serviceType ticket = sType \<and> ticket_status ticket = Waiting) (queue st)))"

text \<open>
  The scenario of the specification: Alice's normal ticket created at time 1000, Bob's
  vip ticket at time 2000, and the state after both calls and the effect.
\<close>

definition aliceTicket :: QueueTicket where
  "aliceTicket =
     \<lparr> ticket_id = ''general-1000'', number = ''A001'', serviceType = ''general'',
       ticket_status = Waiting, timestamp = 1000, counterAssigned = None,
       customerName = Some ''Alice'', purpose = Some ''renew ID'', priority = Normal,
       estimatedWaitTime = Some 0, calledAt = None, completedAt = None,
       ticket_notes = None \<rparr>"

definition bobTicket :: QueueTicket where
  "bobTicket =
     \<lparr> ticket_id = ''general-2000'', number = ''A002'', serviceType = ''general'',
       ticket_status = Waiting, timestamp = 2000, counterAssigned = None,
       customerName = Some ''Bob'', purpose = Some ''complaint'', priority = Vip,
       estimatedWaitTime = Some 5, calledAt = None, completedAt = None,
       ticket_notes = None \<rparr>"

definition aliceBob :: QueueState where
  "aliceBob =
     \<lparr> services = [\<lparr> service_id = ''general'', service_name = ''Pelayanan Umum'', prefix = ''A'',
                     currentNumber = 2, served = 0, waiting = 2 \<rparr>,
                   \<lparr> service_id = ''facility'', service_name = ''Fasilitas'', prefix = ''D'',
                     currentNumber = 0, served = 0, waiting = 0 \<rparr>],
       counters = initialCounters,
       queue = [bobTicket, aliceTicket] \<rparr>"

text \<open>
  The same queue before a single active counter that is assigned to the other service
  and is still shown as serving a ticket.
\<close>

definition busyCounter :: QueueState where
  "busyCounter =
     \<lparr> services = [\<lparr> service_id = ''general'', service_name = ''Pelayanan Umum'', prefix = ''A'',
                     currentNumber = 2, served = 0, waiting = 2 \<rparr>,
                   \<lparr> service_id = ''facility'', service_name = ''Fasilitas'', prefix = ''D'',
                     currentNumber = 7, served = 6, waiting = 0 \<rparr>],
       counters = [\<lparr> counter_id = 1, counter_name = ''Counter 1'', counter_status = Active,
                     currentlyServing = Some ''D007'', counter_serviceType = Some ''facility'' \<rparr>],
       queue = [bobTicket, aliceTicket] \<rparr>"

text \<open>
  A first-run state whose stored counter list holds one active counter with id \<open>0\<close>.
\<close>

definition zeroCounterSeed :: QueueState where
  "zeroCounterSeed =
     \<lparr> services = initialServices,
       counters = [\<lparr> counter_id = 0, counter_name = ''Counter 0'', counter_status = Active,
                     currentlyServing = None, counter_serviceType = None \<rparr>],
       queue = [] \<rparr>"

text \<open>
  A sequence of \<^verbatim>\<open>addToQueue\<close> calls, each with its two clock readings and its
  arguments, run on one engine from a state with the waiting-count effect after every
  call; the result is the list of returned ticket numbers and the final state.
\<close>

type_synonym AddCall = "int \<times> int \<times> string \<times> string option \<times> string option \<times> Priority option"

fun addCalls :: "Engine \<Rightarrow> AddCall list \<Rightarrow> QueueState \<Rightarrow> string list \<times> QueueState" where
  "addCalls engine [] st = ([], st)"
| "addCalls engine ((idNow, tsNow, sType, cName, purp, prio) # calls) st =
     (let (ticketNumber, st1) = addToQueue engine idNow tsNow sType cName purp prio st;
          (ticketNumbers, st2) = addCalls engine calls (recomputeWaiting st1)
      in (ticketNumber # ticketNumbers, st2))"

definition callService :: "AddCall \<Rightarrow> string" where
  "callService call = (case call of (idNow, tsNow, sType, cName, purp, prio) \<Rightarrow> sType)"

text \<open>The ticket numbers returned to the calls for one service, in the order of the calls.\<close>

definition issuedFor :: "Engine \<Rightarrow> string \<Rightarrow> AddCall list \<Rightarrow> QueueState \<Rightarrow> string list" where
  "issuedFor engine sType calls st =
     map snd (filter (\<lambda>(call, ticketNumber). callService call = sType)
                     (zip calls (fst (addCalls engine calls st))))"


text \<open>
  The numeric part of a ticket number as the source prints it while the number is at
  most \<open>2^53\<close>, and the reading of a decimal string back into a number.
\<close>

definition zeroPadded :: "int \<Rightarrow> string" where
  "zeroPadded n = padStart 3 (CHR ''0'') (decimal n)"

definition digitValue :: "char \<Rightarrow> nat" where
  "digitValue c = of_char c - 48"

definition isDigit :: "char \<Rightarrow> bool" where
  "isDigit c \<longleftrightarrow> c \<in> set ''0123456789''"

definition parseNat :: "string \<Rightarrow> nat" where
  "parseNat s = foldl (\<lambda>acc c. 10 * acc + digitValue c) 0 s"

text \<open>
  The seeded state with the sequence number of the general service at \<open>2^53\<close>, as it
  may be read from the stored services, and two calls for that service.
\<close>

definition saturatedState :: QueueState where
  "saturatedState =
     \<lparr> services = [\<lparr> service_id = ''general'', service_name = ''Pelayanan Umum'', prefix = ''A'',
                     currentNumber = 9007199254740992, served = 0, waiting = 0 \<rparr>,
                   \<lparr> service_id = ''facility'', service_name = ''Fasilitas'', prefix = ''D'',
                     currentNumber = 0, served = 0, waiting = 0 \<rparr>],
       counters = initialCounters,
       queue = [] \<rparr>"

definition twoCalls :: "AddCall list" where
  "twoCalls =
     [(1000, 1000, ''general'', Some ''Alice'', None, None),
      (2000, 2000, ''general'', Some ''Bob'', None, None)]"

text \<open>Three calls: Alice (general, normal), Carol (facility), Bob (general, vip).\<close>

definition scenarioCalls :: "AddCall list" where
  "scenarioCalls =
     [(1000, 1000, ''general'', Some ''Alice'', Some ''renew ID'', Some Normal),
      (1500, 1500, ''facility'', Some ''Carol'', None, None),
      (2000, 2000, ''general'', Some ''Bob'', Some ''complaint'', Some Vip)]"


text \<open>
  The forward steps of a ticket's status in one operation: unchanged, waiting to
  serving, or serving to completed.
\<close>

definition forwardStep :: "TicketStatus \<Rightarrow> TicketStatus \<Rightarrow> bool" where
  "forwardStep s s' \<longleftrightarrow>
     s' = s \<or> (s = Waiting \<and> s' = Serving) \<or> (s = Serving \<and> s' = Completed)"

fun isUpdateTicket :: "Operation \<Rightarrow> bool" where
  "isUpdateTicket (UpdateTicket ticketId updates) = True"
| "isUpdateTicket _ = False"

text \<open>The empty object \<^verbatim>\<open>{}\<close> as argument of \<^verbatim>\<open>updateTicket\<close>.\<close>

definition noUpdates :: TicketUpdates where
  "noUpdates =
     \<lparr> u_id = None, u_number = None, u_serviceType = None, u_status = None, u_timestamp = None,
       u_counterAssigned = None, u_customerName = None, u_purpose = None, u_priority = None,
       u_estimatedWaitTime = None, u_calledAt = None, u_completedAt = None, u_notes = None \<rparr>"

section \<open>Properties of the sort\<close>

lemma mset_insert_js: "mset (insert_js cmp x ys) = add_mset x (mset ys)"
  by (induction ys) simp_all

lemma mset_sort_js: "mset (sort_js cmp xs) = mset xs"
  by (induction xs) (simp_all add: sort_js_def mset_insert_js)

lemma set_sort_js: "set (sort_js cmp xs) = set xs"
  using mset_sort_js [of cmp xs] by (metis set_mset_mset)

lemma length_sort_js: "length (sort_js cmp xs) = length xs"
  using mset_sort_js [of cmp xs] by (metis size_mset)

lemma sort_js_Cons: "sort_js cmp (x # xs) = insert_js cmp x (sort_js cmp xs)"
  by (simp add: sort_js_def)

lemma sort_js_Nil: "sort_js cmp [] = []"
  by (simp add: sort_js_def)

text \<open>
  Where the comparator agrees in sign with a linear order on a key, the sort is the
  stable sort by that key.
\<close>

lemma insert_js_insort_key:
  "(\<And>y. y \<in> set ys \<Longrightarrow> (cmp x y \<le> 0) = (f x \<le> f y))
   \<Longrightarrow> insert_js cmp x ys = insort_key f x ys"
  by (induction ys) simp_all

lemma sort_js_sort_key:
  "(\<And>x y. x \<in> set xs \<Longrightarrow> y \<in> set xs \<Longrightarrow> (cmp x y \<le> 0) = (f x \<le> f y))
   \<Longrightarrow> sort_js cmp xs = sort_key f xs"
proof (induction xs)
  case Nil
  show ?case by (simp add: sort_js_Nil)
next
  case (Cons x xs)
  have ih: "sort_js cmp xs = sort_key f xs"
    using Cons by simp
  have "insert_js cmp x (sort_key f xs) = insort_key f x (sort_key f xs)"
    by (rule insert_js_insort_key) (simp add: Cons.prems)
  then show ?case
    by (simp add: sort_js_Cons ih)
qed

lemma comparePriority_key: "(comparePriority a b \<le> 0) = (priorityKey a \<le> priorityKey b)"
  by (auto simp: comparePriority_def priorityKey_def Let_def)

lemma compareTimestamp_key: "(compareTimestamp a b \<le> 0) = (timestamp a \<le> timestamp b)"
  by (simp add: compareTimestamp_def)

lemma sort_js_priority: "sort_js comparePriority xs = sort_key priorityKey xs"
  by (rule sort_js_sort_key) (rule comparePriority_key)

lemma sort_js_timestamp: "sort_js compareTimestamp xs = sort_key timestamp xs"
  by (rule sort_js_sort_key) (rule compareTimestamp_key)



text \<open>
  A comparator that agrees in sign with the comparison of a key in a linear order is
  consistent, and the sort with it is the stable sort by the key on every engine.
\<close>

lemma consistentOn_key:
  fixes f :: "'a \<Rightarrow> 'k :: linorder"
  assumes lt: "\<And>x y. x \<in> set xs \<Longrightarrow> y \<in> set xs \<Longrightarrow> (cmp x y < 0) = (f x < f y)"
    and eq: "\<And>x y. x \<in> set xs \<Longrightarrow> y \<in> set xs \<Longrightarrow> (cmp x y = 0) = (f x = f y)"
  shows "consistentOn cmp xs"
proof -
  have gt: "(cmp x y > 0) = (f x > f y)" if "x \<in> set xs" "y \<in> set xs" for x y
    using lt [OF that] eq [OF that] by auto
  have "cmp a a = 0" if "a \<in> set xs" for a
    using eq [OF that that] by simp
  moreover have "cmp b a = 0" if "a \<in> set xs" "b \<in> set xs" "cmp a b = 0" for a b
    using eq [OF that(1) that(2)] eq [OF that(2) that(1)] that(3) by simp
  moreover have "cmp a c = 0"
    if "a \<in> set xs" "b \<in> set xs" "c \<in> set xs" "cmp a b = 0" "cmp b c = 0" for a b c
    using eq [OF that(1) that(2)] eq [OF that(2) that(3)] eq [OF that(1) that(3)] that(4) that(5)
    by simp
  moreover have "cmp a c < 0"
    if "a \<in> set xs" "b \<in> set xs" "c \<in> set xs" "cmp a b < 0" "cmp b c < 0" for a b c
    using lt [OF that(1) that(2)] lt [OF that(2) that(3)] lt [OF that(1) that(3)] that(4) that(5)
    by simp
  moreover have "cmp a c > 0"
    if "a \<in> set xs" "b \<in> set xs" "c \<in> set xs" "cmp a b > 0" "cmp b c > 0" for a b c
    using gt [OF that(1) that(2)] gt [OF that(2) that(3)] gt [OF that(1) that(3)] that(4) that(5)
    by simp
  ultimately show ?thesis
    unfolding consistentOn_def by blast
qed

lemma arraySort_sort_key:
  fixes f :: "'a \<Rightarrow> 'k :: linorder"
  assumes lt: "\<And>x y. x \<in> set xs \<Longrightarrow> y \<in> set xs \<Longrightarrow> (cmp x y < 0) = (f x < f y)"
    and eq: "\<And>x y. x \<in> set xs \<Longrightarrow> y \<in> set xs \<Longrightarrow> (cmp x y = 0) = (f x = f y)"
  shows "arraySort arrange cmp xs = sort_key f xs"
proof -
  have "consistentOn cmp xs"
    using lt eq by (rule consistentOn_key)
  then have "arraySort arrange cmp xs = sort_js cmp xs"
    by (simp add: arraySort_def)
  moreover have "sort_js cmp xs = sort_key f xs"
  proof (rule sort_js_sort_key)
    fix x y assume "x \<in> set xs" "y \<in> set xs"
    then show "(cmp x y \<le> 0) = (f x \<le> f y)"
      using lt [of x y] eq [of x y] by auto
  qed
  ultimately show ?thesis by simp
qed

lemma mset_arraySort: "mset (arraySort arrange cmp xs) = mset xs"
  by (simp add: arraySort_def Let_def mset_sort_js)

lemma set_arraySort: "set (arraySort arrange cmp xs) = set xs"
  using mset_arraySort [of arrange cmp xs] by (metis set_mset_mset)

lemma comparePriority_sign:
  "(comparePriority a b < 0) = (priorityKey a < priorityKey b)"
  "(comparePriority a b = 0) = (priorityKey a = priorityKey b)"
  by (cases "priority a"; cases "priority b"; auto simp: comparePriority_def priorityKey_def Let_def)+

lemma comparePriority_consistent: "consistentOn comparePriority xs"
  by (rule consistentOn_key [where f = priorityKey]) (rule comparePriority_sign)+

lemma compareTimestamp_consistent: "consistentOn compareTimestamp xs"
  by (rule consistentOn_key [where f = timestamp]) (auto simp: compareTimestamp_def)

lemma arraySort_priority: "arraySort arrange comparePriority xs = sort_js comparePriority xs"
  by (simp add: arraySort_def comparePriority_consistent)

lemma arraySort_timestamp: "arraySort arrange compareTimestamp xs = sort_js compareTimestamp xs"
  by (simp add: arraySort_def compareTimestamp_consistent)

lemma arraySort_all_waiting:
  assumes "list_all (\<lambda>t. ticket_status t = Waiting) xs"
  shows "arraySort arrange compareQueue xs = sort_key priorityKey xs"
proof (rule arraySort_sort_key)
  fix x y assume "x \<in> set xs" "y \<in> set xs"
  then have "compareQueue x y = comparePriority x y"
    using assms by (simp add: compareQueue_def list_all_iff)
  then show "(compareQueue x y < 0) = (priorityKey x < priorityKey y)"
    "(compareQueue x y = 0) = (priorityKey x = priorityKey y)"
    by (simp_all add: comparePriority_sign)
qed




section \<open>Numbers\<close>

lemma ulp_small: "a < 2 ^ 53 \<Longrightarrow> ulp a = 1"
  by (subst ulp.simps) simp

lemma roundDouble_exact:
  assumes "\<bar>x\<bar> \<le> 2 ^ 53"
  shows "roundDouble x = x"
proof (cases "nat \<bar>x\<bar> < 2 ^ 53")
  case True
  then have "ulp (nat \<bar>x\<bar>) = 1" by (rule ulp_small)
  then show ?thesis
    by (simp add: roundDouble_def Let_def mult_sgn_abs)
next
  case False
  then have a: "nat \<bar>x\<bar> = 2 ^ 53" using assms by simp
  have "ulp (2 ^ 53) = 2"
    by (subst ulp.simps) (simp add: ulp_small)
  then have "roundDouble x = sgn x * 2 ^ 53"
    by (simp add: roundDouble_def Let_def a)
  moreover have "\<bar>x\<bar> = 2 ^ 53" using a by simp
  ultimately show ?thesis
    using mult_sgn_abs [of x] by simp
qed

lemma numberAdd_exact: "\<bar>a + b\<bar> \<le> 2 ^ 53 \<Longrightarrow> numberAdd a b = a + b"
  by (simp add: numberAdd_def roundDouble_exact)

text \<open>At \<open>2^53\<close> adding one changes nothing: the sum is rounded back.\<close>

lemma numberAdd_saturated: "numberAdd 9007199254740992 1 = 9007199254740992"
proof -
  have "ulp 9007199254740993 = 2"
    by (subst ulp.simps) (simp add: ulp_small)
  then show ?thesis
    by (simp add: numberAdd_def roundDouble_def Let_def)
qed

lemma toString_exact: "\<bar>i\<bar> \<le> 2 ^ 53 \<Longrightarrow> toString engine i = decimal i"
  by (simp add: toString_def)

section \<open>Evaluation of the concrete states\<close>

lemma decimal_1000: "decimal 1000 = ''1000''"
  by (simp add: decimal_def digits.simps)

lemma pad_1: "padStart 3 (CHR ''0'') (decimal 1) = ''001''"
  by (simp add: decimal_def digits.simps padStart_def numeral_3_eq_3)

lemma addToQueue_alice:
  "snd (addToQueue engine 1000 1000 ''general'' (Some ''Alice'') (Some ''renew ID'') None seededState)
   = oneWaiting"
  by (simp add: addToQueue_def seededState_def initialServices_def oneWaiting_def
      toString_exact numberAdd_exact decimal_1000 pad_1 arraySort_all_waiting
      getWaitingCount_def Let_def)

lemma perform_add_seeded:
  "perform (AddToQueue engine 1000 1000 ''general'' (Some ''Alice'') (Some ''renew ID'') None)
     seededState
   = oneWaitingSettled"
  unfolding perform.simps addToQueue_alice
  by (simp add: recomputeWaiting_def oneWaiting_def oneWaitingSettled_def)

section \<open>The waiting-count effect\<close>

lemma list_ex_zip_map:
  "list_ex (\<lambda>(a, b). Q a b) (zip xs (map f xs)) = (\<exists>x \<in> set xs. Q x (f x))"
  by (induction xs) auto

lemma recomputeWaiting_unfold:
  "recomputeWaiting st =
     (if \<exists>x \<in> set (services st). waiting x \<noteq> getWaitingCount st (service_id x)
      then st \<lparr> services :=
             map (\<lambda>service. service \<lparr> waiting := getWaitingCount st (service_id service) \<rparr>)
                 (services st) \<rparr>
      else st)"
  by (simp add: recomputeWaiting_def getWaitingCount_def list_ex_zip_map Let_def)

text \<open>Whether or not the effect stores its result, the services afterwards are the recomputed ones.\<close>

lemma recomputeWaiting_services:
  "services (recomputeWaiting st) =
     map (\<lambda>service. service \<lparr> waiting := getWaitingCount st (service_id service) \<rparr>) (services st)"
proof (cases "\<exists>x \<in> set (services st). waiting x \<noteq> getWaitingCount st (service_id x)")
  case True
  then show ?thesis
    by (simp add: recomputeWaiting_unfold)
next
  case False
  then have "map (\<lambda>service. service \<lparr> waiting := getWaitingCount st (service_id service) \<rparr>)
               (services st) = services st"
    by (intro map_idI) simp
  moreover from False have "recomputeWaiting st = st"
    by (simp add: recomputeWaiting_unfold)
  ultimately show ?thesis
    by simp
qed

lemma recomputeWaiting_queue: "queue (recomputeWaiting st) = queue st"
  by (simp add: recomputeWaiting_def Let_def)

lemma recomputeWaiting_counters: "counters (recomputeWaiting st) = counters st"
  by (simp add: recomputeWaiting_def Let_def)

lemma getWaitingCount_recomputeWaiting:
  "getWaitingCount (recomputeWaiting st) s = getWaitingCount st s"
  by (simp add: getWaitingCount_def recomputeWaiting_queue)

lemma recomputeWaiting_consistent:
  "service \<in> set (services (recomputeWaiting st))
   \<Longrightarrow> waiting service = getWaitingCount (recomputeWaiting st) (service_id service)"
  by (auto simp: recomputeWaiting_services getWaitingCount_recomputeWaiting)

text \<open>The effect is idempotent: after one run a further run changes nothing.\<close>

lemma recomputeWaiting_idem: "recomputeWaiting (recomputeWaiting st) = recomputeWaiting st"
proof -
  have "services (recomputeWaiting (recomputeWaiting st)) = services (recomputeWaiting st)"
    by (subst recomputeWaiting_services)
       (rule map_idI, simp add: recomputeWaiting_consistent [symmetric])
  then show ?thesis
    by (simp add: QueueState.equality recomputeWaiting_queue recomputeWaiting_counters)
qed

lemma perform_settled: "recomputeWaiting (perform op st) = perform op st"
  by (cases op) (simp_all add: recomputeWaiting_idem)

lemma perform_consistent:
  "service \<in> set (services (perform op st))
   \<Longrightarrow> waiting service = getWaitingCount (perform op st) (service_id service)"
  by (cases op) (simp_all add: recomputeWaiting_consistent)

text \<open>
  Claim C8. For every state and every service \<open>s\<close>, \<open>getWaitingCount s\<close> is the number of
  queue entries (positions of the queue) whose service type is \<open>s\<close> and whose status is
  waiting. The waiting-count effect keeps every service record, in order, and changes
  only its \<open>waiting\<close> field, which it sets to \<open>getWaitingCount\<close> of the record's id; it
  leaves the queue and the counters as they are. So after any operation of the public
  interface has been followed by the effect, every service record's \<open>waiting\<close> field
  equals \<open>getWaitingCount\<close> of its own id, and the state is settled: running the effect
  again changes nothing.
\<close>

theorem waiting_count_consistent:
  "getWaitingCount st s =
     int (card {i. i < length (queue st) \<and> serviceType (queue st ! i) = s
                   \<and> ticket_status (queue st ! i) = Waiting})
   \<and> services (recomputeWaiting st) =
       map (\<lambda>service. service \<lparr> waiting := getWaitingCount st (service_id service) \<rparr>)
           (services st)
   \<and> queue (recomputeWaiting st) = queue st
   \<and> counters (recomputeWaiting st) = counters st
   \<and> (\<forall>service \<in> set (services (perform op st)).
         waiting service = getWaitingCount (perform op st) (service_id service))
   \<and> recomputeWaiting (perform op st) = perform op st"
proof (intro conjI ballI)
  show "getWaitingCount st s =
     int (card {i. i < length (queue st) \<and> serviceType (queue st ! i) = s
                   \<and> ticket_status (queue st ! i) = Waiting})"
    by (simp add: getWaitingCount_def length_filter_conv_card)
  show "services (recomputeWaiting st) =
       map (\<lambda>service. service \<lparr> waiting := getWaitingCount st (service_id service) \<rparr>)
           (services st)"
    by (rule recomputeWaiting_services)
  show "queue (recomputeWaiting st) = queue st"
    by (rule recomputeWaiting_queue)
  show "counters (recomputeWaiting st) = counters st"
    by (rule recomputeWaiting_counters)
  show "waiting service = getWaitingCount (perform op st) (service_id service)"
    if "service \<in> set (services (perform op st))" for service
    using that by (rule perform_consistent)
  show "recomputeWaiting (perform op st) = perform op st"
    by (rule perform_settled)
qed

theorem waiting_count_consistent_witness:
  "services (perform (AddToQueue sampleEngine 1000 1000 ''general'' (Some ''Alice'')
                        (Some ''renew ID'') None) seededState)
     = [\<lparr> service_id = ''general'', service_name = ''Pelayanan Umum'', prefix = ''A'',
           currentNumber = 1, served = 0, waiting = 1 \<rparr>,
        \<lparr> service_id = ''facility'', service_name = ''Fasilitas'', prefix = ''D'',
           currentNumber = 0, served = 0, waiting = 0 \<rparr>]
   \<and> getWaitingCount
         (perform (AddToQueue sampleEngine 1000 1000 ''general'' (Some ''Alice'')
                     (Some ''renew ID'') None) seededState) ''general'' = 1
   \<and> getWaitingCount oneWaiting ''general'' = 1
   \<and> getWaitingCount oneWaiting ''facility'' = 0
   \<and> map waiting (services oneWaiting) = [0, 0]"
proof -
  have c: "getWaitingCount oneWaiting ''general'' = 1" "getWaitingCount oneWaiting ''facility'' = 0"
    by (simp_all add: getWaitingCount_def oneWaiting_def)
  have p: "perform (AddToQueue sampleEngine 1000 1000 ''general'' (Some ''Alice'')
                      (Some ''renew ID'') None) seededState
             = recomputeWaiting oneWaiting"
    by (simp add: addToQueue_alice)
  have "services (recomputeWaiting oneWaiting) =
       map (\<lambda>service. service \<lparr> waiting := getWaitingCount oneWaiting (service_id service) \<rparr>)
           (services oneWaiting)"
    using waiting_count_consistent [of oneWaiting] by (rule conjunct1 [OF conjunct2])
  then have s: "services (recomputeWaiting oneWaiting)
     = [\<lparr> service_id = ''general'', service_name = ''Pelayanan Umum'', prefix = ''A'',
           currentNumber = 1, served = 0, waiting = 1 \<rparr>,
        \<lparr> service_id = ''facility'', service_name = ''Fasilitas'', prefix = ''D'',
           currentNumber = 0, served = 0, waiting = 0 \<rparr>]"
    by (simp add: oneWaiting_def c [unfolded oneWaiting_def])
  have q: "queue (recomputeWaiting oneWaiting) = queue oneWaiting"
    using waiting_count_consistent [of oneWaiting] by (rule conjunct1 [OF conjunct2 [OF conjunct2]])
  have "getWaitingCount (recomputeWaiting oneWaiting) ''general'' = 1"
    using c(1) by (simp add: getWaitingCount_def q)
  moreover have "map waiting (services oneWaiting) = [0, 0]"
    by (simp add: oneWaiting_def)
  ultimately show ?thesis
    unfolding p using s c by simp
qed

section \<open>callNext\<close>

lemma callNext_no_ticket:
  assumes "\<forall>t \<in> set (queue st). \<not> (serviceType t = sType \<and> ticket_status t = Waiting)"
  shows "callNext counterId sType now st = (None, st)"
proof -
  have "filter (\<lambda>ticket. serviceType ticket = sType \<and> ticket_status ticket = Waiting) (queue st) = []"
    using assms by (simp add: filter_empty_conv)
  then show ?thesis
    by (simp add: callNext_def sort_js_Nil)
qed

lemma callNext_bad_counter:
  assumes "find (\<lambda>c. counter_id c = counterId) (counters st) = None
           \<or> (\<exists>c. find (\<lambda>c. counter_id c = counterId) (counters st) = Some c
                    \<and> counter_status c \<noteq> Active)"
  shows "callNext counterId sType now st = (None, st)"
  using assms by (auto simp: callNext_def Let_def split: list.splits option.splits)

text \<open>
  Claim C2. For every state, \<open>callNext\<close> returns null, with the state unchanged, when no
  ticket of the requested service is waiting. When such a ticket exists but the lookup
  of \<open>counterId\<close> among the counters finds nothing, or finds a counter whose status is
  not active, \<open>callNext\<close> returns null and the returned state is the state it was
  given: queue, counters and services are unchanged, and the selected ticket is still
  waiting.
\<close>

theorem callNext_returns_null:
  "((\<forall>t \<in> set (queue st). \<not> (serviceType t = sType \<and> ticket_status t = Waiting))
      \<longrightarrow> callNext counterId sType now st = (None, st))
   \<and> ((\<exists>t \<in> set (queue st). serviceType t = sType \<and> ticket_status t = Waiting)
        \<and> (find (\<lambda>c. counter_id c = counterId) (counters st) = None
             \<or> (\<exists>c. find (\<lambda>c. counter_id c = counterId) (counters st) = Some c
                      \<and> counter_status c \<noteq> Active))
      \<longrightarrow> callNext counterId sType now st = (None, st))"
  using callNext_no_ticket callNext_bad_counter by blast

theorem callNext_returns_null_witness:
  "\<not> (\<exists>t \<in> set (queue oneWaiting). serviceType t = ''facility'' \<and> ticket_status t = Waiting)
   \<and> callNext 1 ''facility'' 5000 oneWaiting = (None, oneWaiting)
   \<and> (\<exists>t \<in> set (queue oneWaiting). serviceType t = ''general'' \<and> ticket_status t = Waiting)
   \<and> (\<exists>c. find (\<lambda>c. counter_id c = 3) (counters oneWaiting) = Some c \<and> counter_status c \<noteq> Active)
   \<and> callNext 3 ''general'' 5000 oneWaiting = (None, oneWaiting)
   \<and> find (\<lambda>c. counter_id c = 9) (counters oneWaiting) = None
   \<and> callNext 9 ''general'' 5000 oneWaiting = (None, oneWaiting)"
proof -
  have a: "\<forall>t \<in> set (queue oneWaiting). \<not> (serviceType t = ''facility'' \<and> ticket_status t = Waiting)"
    by (simp add: oneWaiting_def)
  have b: "\<exists>t \<in> set (queue oneWaiting). serviceType t = ''general'' \<and> ticket_status t = Waiting"
    by (simp add: oneWaiting_def)
  have c: "\<exists>c. find (\<lambda>c. counter_id c = 3) (counters oneWaiting) = Some c \<and> counter_status c \<noteq> Active"
    by (simp add: oneWaiting_def initialCounters_def)
  have d: "find (\<lambda>c. counter_id c = 9) (counters oneWaiting) = None"
    by (simp add: oneWaiting_def initialCounters_def)
  show ?thesis
    using a b c d
      callNext_returns_null [of oneWaiting "''facility''" 1 5000]
      callNext_returns_null [of oneWaiting "''general''" 3 5000]
      callNext_returns_null [of oneWaiting "''general''" 9 5000]
    by blast
qed

text \<open>The library's sort key order is the order of service of the specification.\<close>

lemma priorityKey_servedBefore: "(priorityKey a \<le> priorityKey b) = servedBefore a b"
  by (cases "priority a"; cases "priority b") (auto simp: priorityKey_def servedBefore_def)

lemma sort_key_eq_Nil_iff: "(sort_key f xs = []) = (xs = [])"
  by (metis length_sort length_0_conv)

lemma hd_sort_key_least:
  assumes "xs \<noteq> []" "u \<in> set xs"
  shows "f (hd (sort_key f xs)) \<le> f u"
proof -
  have s: "sorted (map f (sort_key f xs))" by (rule sorted_sort_key)
  have ne: "sort_key f xs \<noteq> []" using assms(1) by (metis length_sort length_0_conv)
  then obtain y ys where eq: "sort_key f xs = y # ys" by (cases "sort_key f xs") auto
  have "u \<in> set (sort_key f xs)" using assms(2) by simp
  with s eq show ?thesis by auto
qed

lemma hd_sort_key_mem: "xs \<noteq> [] \<Longrightarrow> hd (sort_key f xs) \<in> set xs"
  by (metis hd_in_set length_0_conv length_sort set_sort)

text \<open>The successful branch of \<open>callNext\<close>, with the selected ticket named.\<close>

lemma callNext_success:
  assumes w: "\<exists>t \<in> set (queue st). serviceType t = sType \<and> ticket_status t = Waiting"
    and c: "find (\<lambda>c. counter_id c = counterId) (counters st) = Some c"
    and a: "counter_status c = Active"
  shows "callNext counterId sType now st =
     (Some (nextWaiting st sType),
      st \<lparr> queue := map (\<lambda>ticket.
                if ticket_id ticket = ticket_id (nextWaiting st sType)
                then ticket \<lparr> ticket_status := Serving, counterAssigned := Some counterId,
                             calledAt := Some now \<rparr>
                else ticket) (queue st),
           counters := map (\<lambda>counter.
                if counter_id counter = counterId
                then counter \<lparr> currentlyServing := Some (number (nextWaiting st sType)) \<rparr>
                else counter) (counters st) \<rparr>)"
proof -
  let ?W = "filter (\<lambda>ticket. serviceType ticket = sType \<and> ticket_status ticket = Waiting) (queue st)"
  have "?W \<noteq> []" using w by (simp add: filter_empty_conv)
  then have "sort_key priorityKey ?W \<noteq> []" by (simp only: sort_key_eq_Nil_iff not_False_eq_True)
  then obtain y ys where eq: "sort_key priorityKey ?W = y # ys"
    by (cases "sort_key priorityKey ?W") auto
  then have "nextWaiting st sType = y" by (simp add: nextWaiting_def)
  with eq c a show ?thesis
    unfolding callNext_def sort_js_priority Let_def
    by (simp only: list.case option.case if_False simp_thms)
qed

lemma nextWaiting_props:
  assumes w: "\<exists>t \<in> set (queue st). serviceType t = sType \<and> ticket_status t = Waiting"
  shows "nextWaiting st sType \<in> set (queue st)"
    and "serviceType (nextWaiting st sType) = sType"
    and "ticket_status (nextWaiting st sType) = Waiting"
    and "u \<in> set (queue st) \<Longrightarrow> serviceType u = sType \<Longrightarrow> ticket_status u = Waiting
         \<Longrightarrow> servedBefore (nextWaiting st sType) u"
proof -
  let ?W = "filter (\<lambda>ticket. serviceType ticket = sType \<and> ticket_status ticket = Waiting) (queue st)"
  have ne: "?W \<noteq> []" using w by (simp add: filter_empty_conv)
  have m: "nextWaiting st sType \<in> set ?W"
    unfolding nextWaiting_def by (rule hd_sort_key_mem [OF ne])
  show "nextWaiting st sType \<in> set (queue st)" using m by simp
  show "serviceType (nextWaiting st sType) = sType" using m by simp
  show "ticket_status (nextWaiting st sType) = Waiting" using m by simp
  show "servedBefore (nextWaiting st sType) u"
    if "u \<in> set (queue st)" "serviceType u = sType" "ticket_status u = Waiting"
  proof -
    have "u \<in> set ?W" using that by simp
    then have "priorityKey (nextWaiting st sType) \<le> priorityKey u"
      unfolding nextWaiting_def by (rule hd_sort_key_least [OF ne])
    then show ?thesis by (simp add: priorityKey_servedBefore)
  qed
qed

text \<open>Facts about a list updated through \<open>map\<close> at the elements with a given key.\<close>

lemma filter_map_others:
  "(\<And>u. k u = v \<Longrightarrow> k (h u) = v)
   \<Longrightarrow> filter (\<lambda>u. k u \<noteq> v) (map (\<lambda>u. if k u = v then h u else u) xs)
       = filter (\<lambda>u. k u \<noteq> v) xs"
  by (induction xs) auto

lemma map_keyed_mem:
  "x \<in> set xs \<Longrightarrow> k x = v \<Longrightarrow> h x \<in> set (map (\<lambda>u. if k u = v then h u else u) xs)"
  by (induction xs) auto

lemma map_keyed_hit:
  "(\<And>u. k u = v \<Longrightarrow> k (h u) = v)
   \<Longrightarrow> y \<in> set (map (\<lambda>u. if k u = v then h u else u) xs) \<Longrightarrow> k y = v
   \<Longrightarrow> \<exists>u \<in> set xs. k u = v \<and> y = h u"
  by (induction xs) (auto split: if_splits)

lemma find_Some_mem: "find P xs = Some x \<Longrightarrow> x \<in> set xs \<and> P x"
  by (induction xs) (auto split: if_splits)

lemma find_map_keyed:
  "(\<And>x. P (h x) = P x) \<Longrightarrow> find P (map h xs) = map_option h (find P xs)"
  by (induction xs) simp_all

lemma callNext_effect:
  fixes now :: int
  assumes w: "\<exists>t \<in> set (queue st). serviceType t = sType \<and> ticket_status t = Waiting"
    and c: "find (\<lambda>c. counter_id c = counterId) (counters st) = Some c"
    and a: "counter_status c = Active"
  defines "t \<equiv> nextWaiting st sType"
  defines "st' \<equiv> snd (callNext counterId sType now st)"
  shows "callNext counterId sType now st = (Some t, st')"
    and "t \<lparr> ticket_status := Serving, counterAssigned := Some counterId, calledAt := Some now \<rparr>
          \<in> set (queue st')"
    and "\<forall>u \<in> set (queue st'). ticket_id u = ticket_id t
            \<longrightarrow> ticket_status u = Serving \<and> counterAssigned u = Some counterId
                \<and> calledAt u = Some now"
    and "filter (\<lambda>u. ticket_id u \<noteq> ticket_id t) (queue st')
         = filter (\<lambda>u. ticket_id u \<noteq> ticket_id t) (queue st)"
    and "length (queue st') = length (queue st)"
    and "\<exists>c' \<in> set (counters st'). counter_id c' = counterId"
    and "\<forall>c' \<in> set (counters st'). counter_id c' = counterId
            \<longrightarrow> currentlyServing c' = Some (number t)"
    and "services st' = services st"
proof -
  define h where "h = (\<lambda>ticket :: QueueTicket.
     ticket \<lparr> ticket_status := Serving, counterAssigned := Some counterId, calledAt := Some now \<rparr>)"
  define g where "g = (\<lambda>counter :: Counter. counter \<lparr> currentlyServing := Some (number t) \<rparr>)"
  define q' where "q' = map (\<lambda>u. if ticket_id u = ticket_id t then h u else u) (queue st)"
  define cs' where "cs' = map (\<lambda>u. if counter_id u = counterId then g u else u) (counters st)"
  have hid: "\<And>u. ticket_id (h u) = ticket_id u" by (simp add: h_def)
  have gid: "\<And>u. counter_id (g u) = counter_id u" by (simp add: g_def)
  have call: "callNext counterId sType now st = (Some t, st \<lparr> queue := q', counters := cs' \<rparr>)"
    unfolding q'_def cs'_def h_def g_def t_def by (rule callNext_success [OF w c a])
  then have st': "st' = st \<lparr> queue := q', counters := cs' \<rparr>"
    by (simp add: st'_def)
  have q: "queue st' = q'" and cc: "counters st' = cs'" and ss: "services st' = services st"
    by (simp_all add: st')
  show "callNext counterId sType now st = (Some t, st')"
    using call by (simp add: st')
  have mem: "t \<in> set (queue st)" unfolding t_def by (rule nextWaiting_props(1) [OF w])
  have "h t \<in> set q'"
    unfolding q'_def using mem by (rule map_keyed_mem) simp
  then show "t \<lparr> ticket_status := Serving, counterAssigned := Some counterId, calledAt := Some now \<rparr>
          \<in> set (queue st')"
    by (simp add: q h_def)
  have p2: "ticket_status u = Serving \<and> counterAssigned u = Some counterId \<and> calledAt u = Some now"
    if "u \<in> set q'" "ticket_id u = ticket_id t" for u
  proof -
    have "\<exists>x \<in> set (queue st). ticket_id x = ticket_id t \<and> u = h x"
      using that unfolding q'_def by (intro map_keyed_hit) (simp_all add: hid)
    then show ?thesis by (auto simp: h_def)
  qed
  then show "\<forall>u \<in> set (queue st'). ticket_id u = ticket_id t
            \<longrightarrow> ticket_status u = Serving \<and> counterAssigned u = Some counterId
                \<and> calledAt u = Some now"
    unfolding q by blast
  show "filter (\<lambda>u. ticket_id u \<noteq> ticket_id t) (queue st')
         = filter (\<lambda>u. ticket_id u \<noteq> ticket_id t) (queue st)"
    unfolding q q'_def by (rule filter_map_others) (simp add: hid)
  show "length (queue st') = length (queue st)" by (simp add: q q'_def)
  have cm: "c \<in> set (counters st) \<and> counter_id c = counterId"
    using find_Some_mem [OF c] by simp
  then have "g c \<in> set cs'" unfolding cs'_def by (intro map_keyed_mem) simp_all
  moreover have "counter_id (g c) = counterId"
    using cm by (simp add: gid)
  ultimately show "\<exists>c' \<in> set (counters st'). counter_id c' = counterId"
    unfolding cc by (rule bexI [rotated])
  have p6: "currentlyServing c' = Some (number t)" if "c' \<in> set cs'" "counter_id c' = counterId" for c'
  proof -
    have "\<exists>x \<in> set (counters st). counter_id x = counterId \<and> c' = g x"
      using that unfolding cs'_def by (intro map_keyed_hit) (simp_all add: gid)
    then show ?thesis by (auto simp: g_def)
  qed
  then show "\<forall>c' \<in> set (counters st'). counter_id c' = counterId
            \<longrightarrow> currentlyServing c' = Some (number t)"
    unfolding cc by blast
  show "services st' = services st" by (rule ss)
qed

text \<open>
  The outcome of \<open>callNext\<close> is the same after any change of the counters that keeps
  their ids and statuses.
\<close>

lemma callNext_counter_fields:
  assumes w: "\<exists>t \<in> set (queue st). serviceType t = sType \<and> ticket_status t = Waiting"
    and c: "find (\<lambda>c. counter_id c = counterId) (counters st) = Some c"
    and a: "counter_status c = Active"
    and hid: "\<And>k. counter_id (h k) = counter_id k"
    and hst: "\<And>k. counter_status (h k) = counter_status k"
  shows "fst (callNext counterId sType now (st \<lparr> counters := map h (counters st) \<rparr>))
           = fst (callNext counterId sType now st)"
    and "queue (snd (callNext counterId sType now (st \<lparr> counters := map h (counters st) \<rparr>)))
           = queue (snd (callNext counterId sType now st))"
proof -
  let ?sx = "st \<lparr> counters := map h (counters st) \<rparr>"
  have w': "\<exists>t \<in> set (queue ?sx). serviceType t = sType \<and> ticket_status t = Waiting"
    using w by simp
  have c': "find (\<lambda>c. counter_id c = counterId) (counters ?sx) = Some (h c)"
    using c by (simp add: find_map_keyed hid)
  have a': "counter_status (h c) = Active"
    using a by (simp add: hst)
  have nx: "nextWaiting ?sx sType = nextWaiting st sType"
    by (simp add: nextWaiting_def)
  show "fst (callNext counterId sType now ?sx) = fst (callNext counterId sType now st)"
    unfolding callNext_success [OF w' c' a'] callNext_success [OF w c a] nx by simp
  show "queue (snd (callNext counterId sType now ?sx)) = queue (snd (callNext counterId sType now st))"
    unfolding callNext_success [OF w' c' a'] callNext_success [OF w c a] nx by simp
qed

text \<open>
  Claim C3. In every state with a waiting ticket of the requested service in which the
  lookup of \<open>counterId\<close> finds an active counter, \<open>callNext\<close> returns a ticket \<open>t\<close> of
  the queue that is waiting for that service and is served before every waiting ticket
  of the service: none has a higher priority, and none of equal priority has an
  earlier timestamp. In the resulting state that ticket is in the queue with status
  serving, \<open>counterAssigned = counterId\<close> and \<open>calledAt\<close> set to the time of the call, as
  is every queue entry with its id; the entries with other ids are unchanged; a
  counter with id \<open>counterId\<close> exists and every such counter has \<open>currentlyServing\<close>
  equal to the ticket's number; the services are unchanged.
\<close>

theorem callNext_selects_and_assigns:
  assumes w: "\<exists>t \<in> set (queue st). serviceType t = sType \<and> ticket_status t = Waiting"
    and c: "find (\<lambda>c. counter_id c = counterId) (counters st) = Some c"
    and a: "counter_status c = Active"
  shows "\<exists>t st'. callNext counterId sType now st = (Some t, st')
     \<and> t \<in> set (queue st) \<and> serviceType t = sType \<and> ticket_status t = Waiting
     \<and> (\<forall>u \<in> set (queue st). serviceType u = sType \<and> ticket_status u = Waiting
            \<longrightarrow> servedBefore t u)
     \<and> t \<lparr> ticket_status := Serving, counterAssigned := Some counterId, calledAt := Some now \<rparr>
          \<in> set (queue st')
     \<and> (\<forall>u \<in> set (queue st'). ticket_id u = ticket_id t
            \<longrightarrow> ticket_status u = Serving \<and> counterAssigned u = Some counterId
                \<and> calledAt u = Some now)
     \<and> filter (\<lambda>u. ticket_id u \<noteq> ticket_id t) (queue st')
         = filter (\<lambda>u. ticket_id u \<noteq> ticket_id t) (queue st)
     \<and> length (queue st') = length (queue st)
     \<and> (\<exists>c' \<in> set (counters st'). counter_id c' = counterId)
     \<and> (\<forall>c' \<in> set (counters st'). counter_id c' = counterId
            \<longrightarrow> currentlyServing c' = Some (number t))
     \<and> services st' = services st"
proof -
  have best: "\<forall>u \<in> set (queue st). serviceType u = sType \<and> ticket_status u = Waiting
            \<longrightarrow> servedBefore (nextWaiting st sType) u"
    using nextWaiting_props(4) [OF w] by blast
  show ?thesis
    apply (rule exI [of _ "nextWaiting st sType"])
    apply (rule exI [of _ "snd (callNext counterId sType now st)"])
    apply (intro conjI)
               apply (rule callNext_effect(1) [OF w c a])
              apply (rule nextWaiting_props(1) [OF w])
             apply (rule nextWaiting_props(2) [OF w])
            apply (rule nextWaiting_props(3) [OF w])
           apply (rule best)
          apply (rule callNext_effect(2) [OF w c a])
         apply (rule callNext_effect(3) [OF w c a])
        apply (rule callNext_effect(4) [OF w c a])
       apply (rule callNext_effect(5) [OF w c a])
      apply (rule callNext_effect(6) [OF w c a])
     apply (rule callNext_effect(7) [OF w c a])
    apply (rule callNext_effect(8) [OF w c a])
    done
qed

theorem callNext_selects_and_assigns_witness:
  "(\<exists>t \<in> set (queue aliceBob). serviceType t = ''general'' \<and> ticket_status t = Waiting)
   \<and> (\<exists>c. find (\<lambda>c. counter_id c = 1) (counters aliceBob) = Some c \<and> counter_status c = Active)
   \<and> (\<exists>t st'. callNext 1 ''general'' 3000 aliceBob = (Some t, st')
         \<and> t = bobTicket
         \<and> bobTicket \<lparr> ticket_status := Serving, counterAssigned := Some 1, calledAt := Some 3000 \<rparr>
              \<in> set (queue st')
         \<and> (\<exists>c' \<in> set (counters st'). counter_id c' = 1 \<and> currentlyServing c' = Some ''A002''))"
proof -
  have w: "\<exists>t \<in> set (queue aliceBob). serviceType t = ''general'' \<and> ticket_status t = Waiting"
    by (simp add: aliceBob_def aliceTicket_def)
  have c: "find (\<lambda>c. counter_id c = 1) (counters aliceBob) = Some (hd initialCounters)"
    by (simp add: aliceBob_def initialCounters_def)
  have a: "counter_status (hd initialCounters) = Active"
    by (simp add: initialCounters_def)
  obtain t st' where r: "callNext 1 ''general'' 3000 aliceBob = (Some t, st')"
    and m: "t \<in> set (queue aliceBob)"
    and b: "\<forall>u \<in> set (queue aliceBob). serviceType u = ''general'' \<and> ticket_status u = Waiting
            \<longrightarrow> servedBefore t u"
    and q: "t \<lparr> ticket_status := Serving, counterAssigned := Some 1, calledAt := Some 3000 \<rparr>
              \<in> set (queue st')"
    and e: "\<exists>c' \<in> set (counters st'). counter_id c' = 1"
    and s: "\<forall>c' \<in> set (counters st'). counter_id c' = 1 \<longrightarrow> currentlyServing c' = Some (number t)"
    using callNext_selects_and_assigns [OF w c a, of 3000] by blast
  have "servedBefore t bobTicket"
    using b by (simp add: aliceBob_def bobTicket_def)
  moreover have "\<not> servedBefore aliceTicket bobTicket"
    by (simp add: servedBefore_def aliceTicket_def bobTicket_def)
  ultimately have t: "t = bobTicket"
    using m by (auto simp: aliceBob_def)
  have n: "number bobTicket = ''A002''" by (simp add: bobTicket_def)
  from e s have "\<exists>c' \<in> set (counters st'). counter_id c' = 1 \<and> currentlyServing c' = Some ''A002''"
    unfolding t n by blast
  with w c a r q t show ?thesis by blast
qed

text \<open>
  Claim C10. \<open>callNext\<close> never consults the counter's own \<open>serviceType\<close> or
  \<open>currentlyServing\<close>: with a waiting ticket of the argument service and an active
  counter found for \<open>counterId\<close>, and with nothing assumed about those two fields, the
  call returns a ticket of the argument service, assigns it to the counter and
  overwrites the counter's \<open>currentlyServing\<close> with its number; and whatever values the
  two fields of the counters are replaced by, the call returns the same ticket and
  produces the same queue.
\<close>

theorem callNext_ignores_counter_assignment:
  assumes w: "\<exists>t \<in> set (queue st). serviceType t = sType \<and> ticket_status t = Waiting"
    and c: "find (\<lambda>c. counter_id c = counterId) (counters st) = Some c"
    and a: "counter_status c = Active"
  shows "\<exists>t st'. callNext counterId sType now st = (Some t, st')
     \<and> serviceType t = sType
     \<and> (\<forall>u \<in> set (queue st'). ticket_id u = ticket_id t \<longrightarrow> counterAssigned u = Some counterId)
     \<and> (\<forall>c' \<in> set (counters st'). counter_id c' = counterId
            \<longrightarrow> currentlyServing c' = Some (number t))
     \<and> (\<forall>f g. fst (callNext counterId sType now
                      (st \<lparr> counters := map (\<lambda>k. k \<lparr> currentlyServing := f k,
                                                      counter_serviceType := g k \<rparr>)
                                            (counters st) \<rparr>)) = Some t
              \<and> queue (snd (callNext counterId sType now
                      (st \<lparr> counters := map (\<lambda>k. k \<lparr> currentlyServing := f k,
                                                      counter_serviceType := g k \<rparr>)
                                            (counters st) \<rparr>))) = queue st')"
proof -
  define t where "t = nextWaiting st sType"
  define st' where "st' = snd (callNext counterId sType now st)"
  have r: "callNext counterId sType now st = (Some t, st')"
    unfolding t_def st'_def by (rule callNext_effect(1) [OF w c a])
  have sv: "serviceType t = sType"
    unfolding t_def by (rule nextWaiting_props(2) [OF w])
  have q: "\<forall>u \<in> set (queue st'). ticket_id u = ticket_id t \<longrightarrow> counterAssigned u = Some counterId"
    unfolding t_def st'_def using callNext_effect(3) [OF w c a, of now] by blast
  have s: "\<forall>c' \<in> set (counters st'). counter_id c' = counterId
            \<longrightarrow> currentlyServing c' = Some (number t)"
    unfolding t_def st'_def by (rule callNext_effect(7) [OF w c a])
  have i: "fst (callNext counterId sType now
                      (st \<lparr> counters := map (\<lambda>k. k \<lparr> currentlyServing := f k,
                                                      counter_serviceType := g k \<rparr>)
                                            (counters st) \<rparr>)) = Some t
              \<and> queue (snd (callNext counterId sType now
                      (st \<lparr> counters := map (\<lambda>k. k \<lparr> currentlyServing := f k,
                                                      counter_serviceType := g k \<rparr>)
                                            (counters st) \<rparr>))) = queue st'" for f g
  proof -
    have "fst (callNext counterId sType now st) = Some t" and "snd (callNext counterId sType now st) = st'"
      using r by simp_all
    then show ?thesis
      using callNext_counter_fields [OF w c a,
          of "\<lambda>k. k \<lparr> currentlyServing := f k, counter_serviceType := g k \<rparr>" now]
      by simp
  qed
  show ?thesis
    apply (rule exI [of _ t], rule exI [of _ st'])
    apply (intro conjI allI)
         apply (rule r)
        apply (rule sv)
       apply (rule q)
      apply (rule s)
     apply (rule conjunct1 [OF i])
    apply (rule conjunct2 [OF i])
    done
qed

theorem callNext_ignores_counter_assignment_witness:
  "(\<exists>t \<in> set (queue busyCounter). serviceType t = ''general'' \<and> ticket_status t = Waiting)
   \<and> (\<exists>c. find (\<lambda>c. counter_id c = 1) (counters busyCounter) = Some c
           \<and> counter_status c = Active \<and> counter_serviceType c = Some ''facility''
           \<and> currentlyServing c = Some ''D007'')
   \<and> (\<exists>t st'. callNext 1 ''general'' 3000 busyCounter = (Some t, st')
         \<and> serviceType t = ''general''
         \<and> (\<exists>c' \<in> set (counters st'). counter_id c' = 1 \<and> currentlyServing c' = Some (number t)))"
proof -
  have w: "\<exists>t \<in> set (queue busyCounter). serviceType t = ''general'' \<and> ticket_status t = Waiting"
    by (simp add: busyCounter_def aliceTicket_def)
  have c: "find (\<lambda>c. counter_id c = 1) (counters busyCounter) = Some (hd (counters busyCounter))"
    by (simp add: busyCounter_def)
  have a: "counter_status (hd (counters busyCounter)) = Active"
    by (simp add: busyCounter_def)
  have f: "counter_serviceType (hd (counters busyCounter)) = Some ''facility''
           \<and> currentlyServing (hd (counters busyCounter)) = Some ''D007''"
    by (simp add: busyCounter_def)
  obtain t st' where r: "callNext 1 ''general'' 3000 busyCounter = (Some t, st')"
    and sv: "serviceType t = ''general''"
    and s: "\<forall>c' \<in> set (counters st'). counter_id c' = 1 \<longrightarrow> currentlyServing c' = Some (number t)"
    using callNext_ignores_counter_assignment [OF w c a, of 3000] by blast
  have "length (counters st') = 1 \<and> counter_id (hd (counters st')) = 1"
    using r by (auto simp: callNext_def busyCounter_def Let_def split: list.splits if_splits)
  then have "\<exists>c' \<in> set (counters st'). counter_id c' = 1"
    by (cases "counters st'") auto
  with s have "\<exists>c' \<in> set (counters st'). counter_id c' = 1 \<and> currentlyServing c' = Some (number t)"
    by blast
  with w c a f r sv show ?thesis by blast
qed

section \<open>The Alice and Bob scenario\<close>

lemma decimal_2000: "decimal 2000 = ''2000''"
  by (simp add: decimal_def digits.simps)

lemma pad_2: "padStart 3 (CHR ''0'') (decimal 2) = ''002''"
  by (simp add: decimal_def digits.simps padStart_def numeral_3_eq_3)

lemma perform_add_alice:
  "perform (AddToQueue engine 1000 1000 ''general'' (Some ''Alice'') (Some ''renew ID'') (Some Normal))
     seededState
   = oneWaitingSettled"
  by (simp add: addToQueue_def seededState_def initialServices_def
      toString_exact numberAdd_exact decimal_1000 pad_1 arraySort_all_waiting
      getWaitingCount_def Let_def recomputeWaiting_def oneWaitingSettled_def)

lemma perform_add_bob:
  "perform (AddToQueue engine 2000 2000 ''general'' (Some ''Bob'') (Some ''complaint'') (Some Vip))
     oneWaitingSettled
   = aliceBob"
  by (simp add: addToQueue_def oneWaitingSettled_def aliceBob_def aliceTicket_def bobTicket_def
      toString_exact numberAdd_exact decimal_2000 pad_2 arraySort_all_waiting priorityKey_def
      getWaitingCount_def Let_def recomputeWaiting_def)

text \<open>
  Claim C5 as stated fails: \<open>getAllWaitingTickets\<close> sorts by creation timestamp only, so
  after the two calls it returns Alice's ticket before Bob's.
\<close>

theorem getAllWaitingTickets_scenario_counterexample:
  "map customerName
     (getAllWaitingTickets
        (perform (AddToQueue sampleEngine 2000 2000 ''general'' (Some ''Bob'') (Some ''complaint'')
                    (Some Vip))
           (perform (AddToQueue sampleEngine 1000 1000 ''general'' (Some ''Alice'')
                       (Some ''renew ID'') (Some Normal))
              seededState)))
   = [Some ''Alice'', Some ''Bob'']"
  unfolding perform_add_alice perform_add_bob
  by (simp add: getAllWaitingTickets_def aliceBob_def aliceTicket_def bobTicket_def sort_js_def
      compareTimestamp_def)

text \<open>
  Claim C5, amended. Starting from the seeded default services, after
  \<open>addToQueue("general", "Alice", "renew ID", "normal")\<close> followed by
  \<open>addToQueue("general", "Bob", "complaint", "vip")\<close>, Bob's creation timestamp strictly
  later than Alice's: Alice's call returned "A001" and Bob's "A002";
  \<open>getAllWaitingTickets\<close> returns Alice's ticket before Bob's (timestamp order); in the
  stored queue, the order used for calling, Bob's ticket precedes Alice's; and
  \<open>getWaitingCount("general") = 2\<close>.
\<close>

theorem scenario_alice_then_bob:
  assumes "tsAlice < tsBob"
  shows "(let (nA, s1) = addToQueue engine idAlice tsAlice ''general'' (Some ''Alice'') (Some ''renew ID'')
                           (Some Normal) seededState;
              (nB, s2) = addToQueue engine idBob tsBob ''general'' (Some ''Bob'') (Some ''complaint'')
                           (Some Vip) (recomputeWaiting s1);
              st = recomputeWaiting s2
          in nA = ''A001'' \<and> nB = ''A002''
             \<and> map customerName (getAllWaitingTickets st) = [Some ''Alice'', Some ''Bob'']
             \<and> map customerName (queue st) = [Some ''Bob'', Some ''Alice'']
             \<and> map number (queue st) = [''A002'', ''A001'']
             \<and> getWaitingCount st ''general'' = 2)"
  using assms
  by (simp add: addToQueue_def seededState_def initialServices_def pad_1 pad_2 sort_js_def
      toString_exact numberAdd_exact arraySort_all_waiting priorityKey_def
      getWaitingCount_def Let_def recomputeWaiting_def
      getAllWaitingTickets_def compareTimestamp_def)

theorem scenario_alice_then_bob_witness:
  "(1000::int) < 2000
   \<and> (let (nA, s1) = addToQueue sampleEngine 1000 1000 ''general'' (Some ''Alice'') (Some ''renew ID'')
                           (Some Normal) seededState;
              (nB, s2) = addToQueue sampleEngine 2000 2000 ''general'' (Some ''Bob'') (Some ''complaint'')
                           (Some Vip) (recomputeWaiting s1);
              st = recomputeWaiting s2
          in nA = ''A001'' \<and> nB = ''A002''
             \<and> map customerName (getAllWaitingTickets st) = [Some ''Alice'', Some ''Bob'']
             \<and> map customerName (queue st) = [Some ''Bob'', Some ''Alice'']
             \<and> map number (queue st) = [''A002'', ''A001'']
             \<and> getWaitingCount st ''general'' = 2)"
proof -
  have h: "(1000::int) < 2000" by simp
  show ?thesis
    using h scenario_alice_then_bob [OF h, of sampleEngine 1000 2000] by simp
qed

section \<open>completeService\<close>

text \<open>The branches of \<open>completeService\<close>.\<close>

lemma completeService_noop:
  "find (\<lambda>t. ticket_id t = ticketId) (queue st) = None
     \<or> (\<exists>t. find (\<lambda>t. ticket_id t = ticketId) (queue st) = Some t \<and> ticket_status t \<noteq> Serving)
   \<Longrightarrow> completeService ticketId nts now st = st"
  by (auto simp: completeService_def)

lemma completeService_serving:
  assumes "find (\<lambda>t. ticket_id t = ticketId) (queue st) = Some ticket"
    and "ticket_status ticket = Serving"
  shows "queue (completeService ticketId nts now st) =
           map (\<lambda>t. if ticket_id t = ticketId
                     then t \<lparr> ticket_status := Completed, completedAt := Some now, ticket_notes := nts \<rparr>
                     else t) (queue st)"
    and "truthy (counterAssigned ticket) \<Longrightarrow>
           counters (completeService ticketId nts now st) =
             map (\<lambda>counter. if Some (counter_id counter) = counterAssigned ticket
                             then counter \<lparr> currentlyServing := None \<rparr> else counter) (counters st)
           \<and> services (completeService ticketId nts now st) =
             map (\<lambda>service. if service_id service = serviceType ticket
                             then service \<lparr> served := numberAdd (served service) 1 \<rparr>
                             else service) (services st)"
    and "\<not> truthy (counterAssigned ticket) \<Longrightarrow>
           counters (completeService ticketId nts now st) = counters st
           \<and> services (completeService ticketId nts now st) = services st"
  using assms by (simp_all add: completeService_def Let_def)

text \<open>
  Claim C4 against the code. From a state whose only counter has id \<open>0\<close>: Alice takes a
  ticket, counter \<open>0\<close> calls it, so the ticket is serving with \<open>counterAssigned = 0\<close>,
  and the service is completed. The ticket becomes completed, but the guard
  \<^verbatim>\<open>if (ticket.counterAssigned)\<close> reads \<open>0\<close> as absent: counter \<open>0\<close> still shows
  "A001" as currently serving and the served count of the service stays \<open>0\<close>.
\<close>

theorem completeService_counter_zero:
  "(let st0 = perform (CallNext 0 ''general'' 2000)
                (perform (AddToQueue engine 1000 1000 ''general'' (Some ''Alice'') (Some ''renew ID'') None)
                   zeroCounterSeed);
        st = perform (CompleteService ''general-1000'' None 3000) st0
    in map ticket_id (queue st0) = [''general-1000'']
       \<and> map ticket_status (queue st0) = [Serving]
       \<and> map counterAssigned (queue st0) = [Some 0]
       \<and> map currentlyServing (counters st0) = [Some ''A001'']
       \<and> map ticket_status (queue st) = [Completed]
       \<and> map currentlyServing (counters st) = [Some ''A001'']
       \<and> map served (services st) = [0, 0])"
  by (simp add: addToQueue_def callNext_def completeService_def truthy_def zeroCounterSeed_def
      initialServices_def toString_exact numberAdd_exact decimal_1000 pad_1 sort_js_def
      arraySort_all_waiting getWaitingCount_def Let_def recomputeWaiting_def)

section \<open>addToQueue\<close>

lemma addToQueue_queue:
  "queue (snd (addToQueue engine idNow tsNow sType cName purp prio st)) = queue st
   \<or> (\<exists>newTicket. ticket_status newTicket = Waiting
         \<and> queue (snd (addToQueue engine idNow tsNow sType cName purp prio st))
             = arraySort (engineOrder engine) compareQueue (queue st @ [newTicket]))"
proof (cases "find (\<lambda>s. service_id s = sType) (services st)")
  case None
  then show ?thesis by (simp add: addToQueue_def)
next
  case (Some service)
  show ?thesis
    apply (simp add: addToQueue_def Let_def Some)
    apply (rule disjI2, rule exI, rule conjI)
     prefer 2
     apply (rule refl)
    apply simp
    done
qed










section \<open>Ticket numbers\<close>

lemma digit_char: "d < 10 \<Longrightarrow> digitValue (''0123456789'' ! d) = d \<and> isDigit (''0123456789'' ! d)"
proof -
  assume "d < 10"
  then have "d = 0 \<or> d = 1 \<or> d = 2 \<or> d = 3 \<or> d = 4 \<or> d = 5 \<or> d = 6 \<or> d = 7 \<or> d = 8 \<or> d = 9"
    by presburger
  then show ?thesis
    by (elim disjE) (simp_all add: digitValue_def isDigit_def)
qed

lemma parseNat_snoc: "parseNat (s @ [c]) = 10 * parseNat s + digitValue c"
  by (simp add: parseNat_def)

lemma parseNat_digits: "parseNat (digits n) = n"
proof (induction n rule: digits.induct)
  case (1 n)
  show ?case
  proof (cases "n < 10")
    case True
    then show ?thesis
      by (subst digits.simps) (simp add: parseNat_def digit_char)
  next
    case False
    then have "parseNat (digits (n div 10)) = n div 10"
      by (rule "1.IH")
    moreover have "n mod 10 < 10" by simp
    ultimately show ?thesis
      using False by (subst digits.simps) (simp add: parseNat_snoc digit_char)
  qed
qed

lemma digits_isDigit: "list_all isDigit (digits n)"
proof (induction n rule: digits.induct)
  case (1 n)
  show ?case
  proof (cases "n < 10")
    case True
    then show ?thesis
      by (subst digits.simps) (simp add: digit_char)
  next
    case False
    then have "list_all isDigit (digits (n div 10))"
      by (rule "1.IH")
    moreover have "n mod 10 < 10" by simp
    ultimately show ?thesis
      using False by (subst digits.simps) (simp add: digit_char)
  qed
qed

lemma length_digits_pos: "0 < length (digits n)"
  by (subst digits.simps) simp

lemma length_digits_small: "n < 1000 \<Longrightarrow> length (digits n) \<le> 3"
proof -
  assume n: "n < 1000"
  have one: "length (digits m) = 1" if "m < 10" for m
    using that by (subst digits.simps) simp
  have two: "length (digits m) \<le> 2" if "m < 100" for m
  proof (cases "m < 10")
    case True
    then show ?thesis by (simp add: one)
  next
    case False
    have "m div 10 < 10" using that by simp
    then have "length (digits (m div 10)) = 1" by (rule one)
    then show ?thesis using False by (subst digits.simps) simp
  qed
  show ?thesis
  proof (cases "n < 10")
    case True
    then show ?thesis by (simp add: one)
  next
    case False
    have "n div 10 < 100" using n by simp
    then have "length (digits (n div 10)) \<le> 2" by (rule two)
    then show ?thesis using False by (subst digits.simps) simp
  qed
qed

lemma parseNat_zeros: "parseNat (replicate k (CHR ''0'') @ s) = parseNat s"
proof -
  have "foldl (\<lambda>acc c. 10 * acc + digitValue c) 0 (replicate k (CHR ''0'')) = 0"
    by (induction k) (simp_all add: digitValue_def)
  then show ?thesis
    by (simp add: parseNat_def)
qed

lemma zeroPadded_props:
  assumes "0 \<le> n"
  shows "parseNat (zeroPadded n) = nat n"
    and "3 \<le> length (zeroPadded n)"
    and "list_all isDigit (zeroPadded n)"
    and "n < 1000 \<Longrightarrow> length (zeroPadded n) = 3"
proof -
  have ts: "decimal n = digits (nat n)"
    using assms by (simp add: decimal_def)
  show "parseNat (zeroPadded n) = nat n"
    by (simp add: zeroPadded_def padStart_def ts parseNat_zeros parseNat_digits)
  show "3 \<le> length (zeroPadded n)"
    by (simp add: zeroPadded_def padStart_def)
  have z: "isDigit (CHR ''0'')"
    by (simp add: isDigit_def)
  show "list_all isDigit (zeroPadded n)"
    using digits_isDigit [of "nat n"] z
    by (auto simp: zeroPadded_def padStart_def ts list_all_iff)
  show "length (zeroPadded n) = 3" if "n < 1000"
  proof -
    have "nat n < 1000" using that assms by simp
    then have "length (digits (nat n)) \<le> 3" by (rule length_digits_small)
    then show ?thesis
      by (simp add: zeroPadded_def padStart_def ts)
  qed
qed

lemma decimal_big: "decimal 9007199254740992 = ''9007199254740992''"
  by (simp add: decimal_def digits.simps)

lemma zeroPadded_1: "zeroPadded 1 = ''001''"
  by (simp add: zeroPadded_def pad_1)

lemma zeroPadded_2: "zeroPadded 2 = ''002''"
  by (simp add: zeroPadded_def pad_2)

lemma zeroPadded_7: "zeroPadded 7 = ''007''"
  by (simp add: zeroPadded_def decimal_def digits.simps padStart_def numeral_3_eq_3)

lemma addToQueue_unknown:
  "find (\<lambda>s. service_id s = sType) (services st) = None
   \<Longrightarrow> addToQueue engine idNow tsNow sType cName purp prio st = ('''', st)"
  by (simp add: addToQueue_def)

lemma addToQueue_known:
  assumes "find (\<lambda>s. service_id s = sType) (services st) = Some service"
  shows "fst (addToQueue engine idNow tsNow sType cName purp prio st)
           = prefix service
             @ padStart 3 (CHR ''0'') (toString engine (numberAdd (currentNumber service) 1))"
    and "services (snd (addToQueue engine idNow tsNow sType cName purp prio st))
           = map (\<lambda>s. if service_id s = sType
                       then s \<lparr> currentNumber := numberAdd (currentNumber service) 1 \<rparr> else s)
                 (services st)"
  using assms by (simp_all add: addToQueue_def Let_def)

text \<open>Within \<open>2^53\<close> the returned number is the prefix and the zero-padded successor.\<close>

lemma addToQueue_known_exact:
  assumes f: "find (\<lambda>s. service_id s = sType) (services st) = Some service"
    and c: "- (2 ^ 53) \<le> currentNumber service" "currentNumber service + 1 \<le> 2 ^ 53"
  shows "numberAdd (currentNumber service) 1 = currentNumber service + 1"
    and "fst (addToQueue engine idNow tsNow sType cName purp prio st)
           = prefix service @ zeroPadded (currentNumber service + 1)"
proof -
  have b: "\<bar>currentNumber service + 1\<bar> \<le> 2 ^ 53"
    using c by simp
  then show n: "numberAdd (currentNumber service) 1 = currentNumber service + 1"
    by (rule numberAdd_exact)
  show "fst (addToQueue engine idNow tsNow sType cName purp prio st)
           = prefix service @ zeroPadded (currentNumber service + 1)"
    unfolding addToQueue_known(1) [OF f] n zeroPadded_def toString_exact [OF b] ..
qed

text \<open>The first service found for an id, after the effect and after one call of \<open>addToQueue\<close>.\<close>

lemma find_service_recomputeWaiting:
  "find (\<lambda>s. service_id s = k) (services (recomputeWaiting st))
     = map_option (\<lambda>s. s \<lparr> waiting := getWaitingCount st (service_id s) \<rparr>)
                  (find (\<lambda>s. service_id s = k) (services st))"
  unfolding recomputeWaiting_services by (rule find_map_keyed) simp

lemma find_service_after_add:
  assumes f: "find (\<lambda>s. service_id s = k) (services st) = Some service"
  shows "\<exists>service'.
           find (\<lambda>s. service_id s = k)
                (services (recomputeWaiting (snd (addToQueue engine idNow tsNow sType cName purp prio st))))
             = Some service'
           \<and> prefix service' = prefix service
           \<and> currentNumber service'
               = (if sType = k then numberAdd (currentNumber service) 1 else currentNumber service)"
proof (cases "find (\<lambda>s. service_id s = sType) (services st)")
  case None
  then have "snd (addToQueue engine idNow tsNow sType cName purp prio st) = st"
    by (simp add: addToQueue_unknown)
  moreover have "sType \<noteq> k" using None f by auto
  ultimately show ?thesis
    using f by (simp add: find_service_recomputeWaiting)
next
  case (Some target)
  let ?st1 = "snd (addToQueue engine idNow tsNow sType cName purp prio st)"
  let ?h = "\<lambda>s. if service_id s = sType
                then s \<lparr> currentNumber := numberAdd (currentNumber target) 1 \<rparr> else s"
  have "find (\<lambda>s. service_id s = k) (services ?st1)
          = map_option ?h (find (\<lambda>s. service_id s = k) (services st))"
    unfolding addToQueue_known(2) [OF Some] by (rule find_map_keyed) simp
  then have "find (\<lambda>s. service_id s = k) (services (recomputeWaiting ?st1))
          = Some ((?h service) \<lparr> waiting := getWaitingCount ?st1 (service_id (?h service)) \<rparr>)"
    using f by (simp add: find_service_recomputeWaiting)
  moreover have "sType = k \<Longrightarrow> target = service"
    using Some f by simp
  moreover have "service_id service = k"
    using find_Some_mem [OF f] by simp
  ultimately show ?thesis
    by auto
qed

lemma issuedFor_Nil: "issuedFor engine sType [] st = []"
  by (simp add: issuedFor_def)

lemma issuedFor_Cons:
  "issuedFor engine sType ((idNow, tsNow, sType', cName, purp, prio) # calls) st
     = (if sType' = sType then [fst (addToQueue engine idNow tsNow sType' cName purp prio st)] else [])
       @ issuedFor engine sType calls
           (recomputeWaiting (snd (addToQueue engine idNow tsNow sType' cName purp prio st)))"
  by (simp add: issuedFor_def callService_def split_beta)

lemma addCalls_Cons_snd:
  "snd (addCalls engine ((idNow, tsNow, sType', cName, purp, prio) # calls) st)
     = snd (addCalls engine calls (recomputeWaiting (snd (addToQueue engine idNow tsNow sType' cName purp prio st))))"
  by (simp add: split_beta)

lemma map_upt_shift: "f (Suc c) # map (\<lambda>k. f (Suc c + k)) [1..<Suc n] = map (\<lambda>k. f (c + k)) [1..<Suc (Suc n)]"
proof -
  have "[1..<Suc (Suc n)] = 1 # map Suc [1..<Suc n]"
    by (simp add: map_Suc_upt upt_conv_Cons del: upt_Suc)
  then show ?thesis
    by (simp add: comp_def del: upt_Suc)
qed

lemma issuedFor_sequence:
  assumes "find (\<lambda>s. service_id s = sType) (services st) = Some service"
    and "- (2 ^ 53) \<le> currentNumber service"
    and "currentNumber service
           + int (length (filter (\<lambda>call. callService call = sType) calls)) \<le> 2 ^ 53"
  shows "issuedFor engine sType calls st
           = map (\<lambda>k. prefix service @ zeroPadded (currentNumber service + int k))
                 [1..<Suc (length (filter (\<lambda>call. callService call = sType) calls))]
         \<and> (\<exists>service'. find (\<lambda>s. service_id s = sType) (services (snd (addCalls engine calls st)))
                          = Some service'
               \<and> prefix service' = prefix service
               \<and> currentNumber service' = currentNumber service
                    + int (length (filter (\<lambda>call. callService call = sType) calls)))"
  using assms
proof (induction calls arbitrary: st service)
  case Nil
  then show ?case by (simp add: issuedFor_Nil)
next
  case (Cons call calls)
  obtain idNow tsNow sType' cName purp prio where call: "call = (idNow, tsNow, sType', cName, purp, prio)"
    by (cases call) auto
  let ?st1 = "recomputeWaiting (snd (addToQueue engine idNow tsNow sType' cName purp prio st))"
  let ?n = "length (filter (\<lambda>call. callService call = sType) calls)"
  obtain service1 where f1: "find (\<lambda>s. service_id s = sType) (services ?st1) = Some service1"
    and p1: "prefix service1 = prefix service"
    and c1: "currentNumber service1
               = (if sType' = sType then numberAdd (currentNumber service) 1
                  else currentNumber service)"
    using find_service_after_add [OF Cons.prems(1)] by blast
  show ?case
  proof (cases "sType' = sType")
    case True
    have n: "length (filter (\<lambda>call. callService call = sType) (call # calls)) = Suc ?n"
      using True by (simp add: call callService_def)
    have bound: "currentNumber service + 1 \<le> 2 ^ 53"
      using Cons.prems(3) unfolding n by simp
    have e: "numberAdd (currentNumber service) 1 = currentNumber service + 1"
      by (rule addToQueue_known_exact(1) [OF Cons.prems(1) Cons.prems(2) bound])
    have r: "fst (addToQueue engine idNow tsNow sType cName purp prio st)
               = prefix service @ zeroPadded (currentNumber service + 1)"
      by (rule addToQueue_known_exact(2) [OF Cons.prems(1) Cons.prems(2) bound])
    have c1': "currentNumber service1 = currentNumber service + 1"
      using c1 True e by simp
    have nn: "- (2 ^ 53) \<le> currentNumber service1"
      using c1' Cons.prems(2) by simp
    have bb: "currentNumber service1 + int ?n \<le> 2 ^ 53"
      using c1' Cons.prems(3) unfolding n by simp
    note ih = Cons.IH [OF f1 nn bb]
    let ?f = "\<lambda>j. prefix service @ zeroPadded (currentNumber service + int j)"
    have "issuedFor engine sType (call # calls) st
            = ?f (Suc 0) # map (\<lambda>k. ?f (Suc 0 + k)) [1..<Suc ?n]"
      using ih True by (simp add: call issuedFor_Cons r p1 c1' add.assoc del: upt_Suc)
    also have "\<dots> = map ?f [1..<Suc (Suc ?n)]"
      using map_upt_shift [of ?f 0 ?n] by simp
    finally have a: "issuedFor engine sType (call # calls) st = map ?f [1..<Suc (Suc ?n)]" .
    have b: "\<exists>service'. find (\<lambda>s. service_id s = sType)
                            (services (snd (addCalls engine (call # calls) st)))
                          = Some service'
               \<and> prefix service' = prefix service
               \<and> currentNumber service' = currentNumber service + int (Suc ?n)"
      using ih True unfolding call addCalls_Cons_snd by (auto simp: p1 c1')
    show ?thesis
      unfolding n using a b by blast
  next
    case False
    have n: "length (filter (\<lambda>call. callService call = sType) (call # calls)) = ?n"
      using False by (simp add: call callService_def)
    have c1': "currentNumber service1 = currentNumber service"
      using c1 False by simp
    have nn: "- (2 ^ 53) \<le> currentNumber service1"
      using c1' Cons.prems(2) by simp
    have bb: "currentNumber service1 + int ?n \<le> 2 ^ 53"
      using c1' Cons.prems(3) unfolding n by simp
    note ih = Cons.IH [OF f1 nn bb]
    show ?thesis
      unfolding n using ih False unfolding call addCalls_Cons_snd
      by (simp add: issuedFor_Cons p1 c1' del: upt_Suc)
  qed
qed

lemma issued_numeric_increasing:
  assumes "0 \<le> c"
  shows "sorted_wrt (<) (map (\<lambda>r. parseNat (drop (length p) r))
                             (map (\<lambda>k. p @ zeroPadded (c + int k)) [1..<Suc n]))"
proof -
  have eq: "map (\<lambda>r. parseNat (drop (length p) r)) (map (\<lambda>k. p @ zeroPadded (c + int k)) [1..<Suc n])
          = map (\<lambda>k. nat (c + int k)) [1..<Suc n]"
    using assms by (simp add: zeroPadded_props(1) del: upt_Suc)
  have s: "sorted_wrt (\<lambda>x y. nat (c + int x) < nat (c + int y)) [1..<Suc n]"
    by (rule sorted_wrt_mono_rel [OF _ sorted_wrt_upt]) (use assms in simp)
  show ?thesis
    unfolding eq sorted_wrt_map by (rule s)
qed

text \<open>
  Claim C7 as stated fails: the sequence number is a double. Read from the stored
  services at \<open>2^53\<close>, it is not advanced by adding one, and two calls for the service
  return the same ticket number.
\<close>

theorem ticket_numbers_saturated_counterexample:
  "issuedFor sampleEngine ''general'' twoCalls saturatedState
     = [''A9007199254740992'', ''A9007199254740992'']
   \<and> map currentNumber (services (snd (addCalls sampleEngine twoCalls saturatedState)))
     = [9007199254740992, 0]"
  by (simp add: issuedFor_def twoCalls_def callService_def addToQueue_def saturatedState_def
      numberAdd_saturated toString_exact decimal_big padStart_def arraySort_all_waiting
      priorityKey_def getWaitingCount_def Let_def recomputeWaiting_def)

text \<open>
  Claim C7, amended. Let \<open>service\<close> be the service found for \<open>sType\<close> in a state, with a
  sequence number that stays within \<open>2^53\<close> in magnitude, the range in which the
  numbers of the source count exactly, over the calls considered. For every sequence
  of \<open>addToQueue\<close> calls (for this and for other services) the numbers returned to the
  calls for \<open>sType\<close> are, in order, the prefix followed by the zero-padded
  \<open>currentNumber + 1\<close>, \<open>currentNumber + 2\<close>, and so on; afterwards the service's
  \<open>currentNumber\<close> has advanced by the number of those calls; and, the sequence number
  not being negative, the numeric parts of the returned numbers, read as decimals,
  are strictly increasing. The zero-padded
  rendering of \<open>n \<ge> 0\<close> consists of digits, reads back as \<open>n\<close>, has at least three
  characters and exactly three below 1000. With a \<open>serviceType\<close> that matches no
  service, \<open>addToQueue\<close> returns the empty string and the state is unchanged.
\<close>

theorem ticket_numbers_sequence:
  "(find (\<lambda>s. service_id s = sType) (services st) = Some service
      \<and> - (2 ^ 53) \<le> currentNumber service
      \<and> currentNumber service
           + int (length (filter (\<lambda>call. callService call = sType) calls)) \<le> 2 ^ 53 \<longrightarrow>
      issuedFor engine sType calls st
        = map (\<lambda>k. prefix service @ zeroPadded (currentNumber service + int k))
              [1..<Suc (length (filter (\<lambda>call. callService call = sType) calls))]
      \<and> (\<exists>service'. find (\<lambda>s. service_id s = sType) (services (snd (addCalls engine calls st)))
                       = Some service'
            \<and> prefix service' = prefix service
            \<and> currentNumber service' = currentNumber service
                 + int (length (filter (\<lambda>call. callService call = sType) calls)))
      \<and> (0 \<le> currentNumber service \<longrightarrow>
            sorted_wrt (<) (map (\<lambda>r. parseNat (drop (length (prefix service)) r))
                                (issuedFor engine sType calls st))))
   \<and> (0 \<le> n \<longrightarrow>
         parseNat (zeroPadded n) = nat n \<and> 3 \<le> length (zeroPadded n)
         \<and> list_all isDigit (zeroPadded n) \<and> (n < 1000 \<longrightarrow> length (zeroPadded n) = 3))
   \<and> (find (\<lambda>s. service_id s = sType) (services st) = None \<longrightarrow>
         addToQueue engine idNow tsNow sType cName purp prio st = ('''', st))"
proof (intro conjI impI)
  assume h: "find (\<lambda>s. service_id s = sType) (services st) = Some service
      \<and> - (2 ^ 53) \<le> currentNumber service
      \<and> currentNumber service
           + int (length (filter (\<lambda>call. callService call = sType) calls)) \<le> 2 ^ 53"
  then have f: "find (\<lambda>s. service_id s = sType) (services st) = Some service"
    and c: "- (2 ^ 53) \<le> currentNumber service"
    and b: "currentNumber service
           + int (length (filter (\<lambda>call. callService call = sType) calls)) \<le> 2 ^ 53"
    by simp_all
  show seq: "issuedFor engine sType calls st
        = map (\<lambda>k. prefix service @ zeroPadded (currentNumber service + int k))
              [1..<Suc (length (filter (\<lambda>call. callService call = sType) calls))]"
    using issuedFor_sequence [OF f c b] by (rule conjunct1)
  show "\<exists>service'. find (\<lambda>s. service_id s = sType) (services (snd (addCalls engine calls st)))
                       = Some service'
            \<and> prefix service' = prefix service
            \<and> currentNumber service' = currentNumber service
                 + int (length (filter (\<lambda>call. callService call = sType) calls))"
    using issuedFor_sequence [OF f c b] by (rule conjunct2)
  show "sorted_wrt (<) (map (\<lambda>r. parseNat (drop (length (prefix service)) r))
                            (issuedFor engine sType calls st))"
    if "0 \<le> currentNumber service"
    unfolding seq by (rule issued_numeric_increasing [OF that])
next
  assume "0 \<le> n"
  then show "parseNat (zeroPadded n) = nat n" "3 \<le> length (zeroPadded n)"
    "list_all isDigit (zeroPadded n)"
    by (rule zeroPadded_props)+
  show "length (zeroPadded n) = 3" if "n < 1000"
    using \<open>0 \<le> n\<close> that by (rule zeroPadded_props(4))
next
  assume "find (\<lambda>s. service_id s = sType) (services st) = None"
  then show "addToQueue engine idNow tsNow sType cName purp prio st = ('''', st)"
    by (rule addToQueue_unknown)
qed

theorem ticket_numbers_sequence_witness:
  "find (\<lambda>s. service_id s = ''general'') (services seededState) = Some (hd initialServices)
   \<and> - (2 ^ 53) \<le> currentNumber (hd initialServices)
   \<and> 0 \<le> currentNumber (hd initialServices)
   \<and> currentNumber (hd initialServices)
        + int (length (filter (\<lambda>call. callService call = ''general'') scenarioCalls)) \<le> 2 ^ 53
   \<and> issuedFor sampleEngine ''general'' scenarioCalls seededState = [''A001'', ''A002'']
   \<and> map (\<lambda>r. parseNat (drop 1 r)) (issuedFor sampleEngine ''general'' scenarioCalls seededState)
       = [1, 2]
   \<and> zeroPadded 7 = ''007'' \<and> parseNat (zeroPadded 7) = 7
   \<and> find (\<lambda>s. service_id s = ''parking'') (services seededState) = None
   \<and> addToQueue sampleEngine 1 1 ''parking'' None None None seededState = ('''', seededState)"
proof -
  have f: "find (\<lambda>s. service_id s = ''general'') (services seededState) = Some (hd initialServices)"
    by (simp add: seededState_def initialServices_def)
  have g: "find (\<lambda>s. service_id s = ''parking'') (services seededState) = None"
    by (simp add: seededState_def initialServices_def)
  have n: "length (filter (\<lambda>call. callService call = ''general'') scenarioCalls) = 2"
    by (simp add: scenarioCalls_def callService_def)
  have u: "[Suc 0..<3] = [1, 2]"
    by (simp add: upt_conv_Cons numeral_3_eq_3)
  have p: "prefix (hd initialServices) = ''A'' \<and> currentNumber (hd initialServices) = 0"
    by (simp add: initialServices_def)
  have c: "- (2 ^ 53) \<le> currentNumber (hd initialServices)"
    "0 \<le> currentNumber (hd initialServices)"
    using p by simp_all
  have b: "currentNumber (hd initialServices)
        + int (length (filter (\<lambda>call. callService call = ''general'') scenarioCalls)) \<le> 2 ^ 53"
    unfolding n using p by simp
  note t1 = ticket_numbers_sequence
    [of "''general''" seededState "hd initialServices" scenarioCalls sampleEngine 7]
  note t2 = ticket_numbers_sequence
    [of "''parking''" seededState _ _ sampleEngine 7 1 1 None None None]
  have i: "issuedFor sampleEngine ''general'' scenarioCalls seededState = [''A001'', ''A002'']"
    using t1 f c b by (simp add: n u p zeroPadded_1 zeroPadded_2)
  have "parseNat (zeroPadded 7) = 7"
    using t1 by simp
  moreover have "map (\<lambda>r. parseNat (drop 1 r)) [''A001'', ''A002''] = [1, 2]"
    using zeroPadded_props(1) [of 1] zeroPadded_props(1) [of 2]
    by (simp add: zeroPadded_1 zeroPadded_2)
  moreover have "addToQueue sampleEngine 1 1 ''parking'' None None None seededState
                   = ('''', seededState)"
    using t2 g by simp
  ultimately show ?thesis
    using f g c b i zeroPadded_7 by simp
qed

section \<open>getTicketPosition\<close>

lemma findIndex_first:
  "\<exists>x \<in> set xs. P x
   \<Longrightarrow> \<exists>i < length xs. findIndex P xs = int i \<and> P (xs ! i) \<and> (\<forall>j < i. \<not> P (xs ! j))"
proof (induction xs)
  case Nil
  then show ?case by simp
next
  case (Cons x xs)
  show ?case
  proof (cases "P x")
    case True
    then show ?thesis by auto
  next
    case False
    with Cons.prems have "\<exists>x \<in> set xs. P x" by simp
    then obtain i where i: "i < length xs" "findIndex P xs = int i" "P (xs ! i)"
      "\<forall>j < i. \<not> P (xs ! j)"
      using Cons.IH by blast
    have "findIndex P (x # xs) = int (Suc i)"
      using False i(2) by (simp add: Let_def)
    moreover have "\<forall>j < Suc i. \<not> P ((x # xs) ! j)"
      using False i(4) by (auto simp: nth_Cons split: nat.splits)
    ultimately show ?thesis
      using i(1) i(3) by (intro exI [of _ "Suc i"]) simp
  qed
qed

lemma length_filter_le_split:
  "\<forall>a \<in> set xs. f a \<le> (k :: 'b :: linorder)
   \<Longrightarrow> length xs = length (filter (\<lambda>u. f u < k) xs) + length (filter (\<lambda>u. f u = k) xs)"
  by (induction xs) auto

lemma takeWhile_filter_upto:
  assumes "P x"
  shows "takeWhile (\<lambda>u. u \<noteq> x) (filter P xs) = filter P (takeWhile (\<lambda>u. u \<noteq> x) xs)"
proof (induction xs)
  case Nil
  show ?case by simp
next
  case (Cons y ys)
  then show ?case using assms by (cases "y = x") simp_all
qed

text \<open>The position of an element in the stable sort of a list without duplicates.\<close>

lemma sort_key_position:
  fixes f :: "'a \<Rightarrow> 'b :: linorder"
  assumes d: "distinct xs" and i: "i < length xs" and x: "sort_key f xs ! i = x"
  shows "i = length (filter (\<lambda>u. f u < f x) xs)
           + length (filter (\<lambda>u. f u = f x) (takeWhile (\<lambda>u. u \<noteq> x) xs))"
proof -
  define S where "S = sort_key f xs"
  define A where "A = take i S"
  define B where "B = drop (Suc i) S"
  have len: "i < length S" using i by (simp add: S_def)
  have S: "S = A @ x # B"
    unfolding A_def B_def using id_take_nth_drop [OF len] x by (simp add: S_def)
  have lenA: "length A = i" using len by (simp add: A_def)
  have srt: "sorted (map f S)" unfolding S_def by (rule sorted_sort_key)
  have A_le: "\<forall>a \<in> set A. f a \<le> f x" and B_ge: "\<forall>b \<in> set B. f x \<le> f b"
    using srt unfolding S by (auto simp: sorted_append)
  have "mset (filter (\<lambda>u. f u < f x) xs) = mset (filter (\<lambda>u. f u < f x) S)"
    by (simp add: S_def)
  then have "length (filter (\<lambda>u. f u < f x) xs) = length (filter (\<lambda>u. f u < f x) S)"
    by (metis size_mset)
  also have "\<dots> = length (filter (\<lambda>u. f u < f x) A)"
  proof -
    have "filter (\<lambda>u. f u < f x) B = []"
      using B_ge by (auto simp: filter_empty_conv)
    then show ?thesis by (simp add: S)
  qed
  finally have less: "length (filter (\<lambda>u. f u < f x) xs) = length (filter (\<lambda>u. f u < f x) A)" .
  have st: "filter (\<lambda>u. f u = f x) xs = filter (\<lambda>u. f u = f x) A @ x # filter (\<lambda>u. f u = f x) B"
    using sort_key_stable [of f "f x" xs] by (simp add: S_def [symmetric] S)
  have "distinct S" using d by (simp add: S_def)
  then have xA: "x \<notin> set A" by (simp add: S)
  have "filter (\<lambda>u. f u = f x) (takeWhile (\<lambda>u. u \<noteq> x) xs)
          = takeWhile (\<lambda>u. u \<noteq> x) (filter (\<lambda>u. f u = f x) xs)"
    by (simp add: takeWhile_filter_upto)
  also have "\<dots> = filter (\<lambda>u. f u = f x) A"
    unfolding st using xA by (simp add: takeWhile_append)
  finally have eq: "length (filter (\<lambda>u. f u = f x) (takeWhile (\<lambda>u. u \<noteq> x) xs))
                      = length (filter (\<lambda>u. f u = f x) A)"
    by simp
  have "length A = length (filter (\<lambda>u. f u < f x) A) + length (filter (\<lambda>u. f u = f x) A)"
    using A_le by (rule length_filter_le_split)
  then show ?thesis
    using lenA less eq by simp
qed

lemma getTicketPosition_waiting:
  assumes f: "find (\<lambda>t. ticket_id t = ticketId) (queue st) = Some ticket"
    and w: "ticket_status ticket = Waiting"
  defines "W \<equiv> filter (\<lambda>t. serviceType t = serviceType ticket \<and> ticket_status t = Waiting) (queue st)"
  shows "\<exists>i < length W. getTicketPosition st ticketId = Some (int i + 1)
           \<and> ticket_id (sort_key timestamp W ! i) = ticketId
           \<and> (\<forall>j < i. ticket_id (sort_key timestamp W ! j) \<noteq> ticketId)"
    and "distinct (map ticket_id (queue st)) \<Longrightarrow>
           getTicketPosition st ticketId
             = Some (1 + int (length (filter (\<lambda>u. timestamp u < timestamp ticket) W))
                       + int (length (filter (\<lambda>u. timestamp u = timestamp ticket)
                                             (takeWhile (\<lambda>u. u \<noteq> ticket) W))))"
proof -
  define S where "S = sort_key timestamp W"
  have tq: "ticket \<in> set (queue st)" and tid: "ticket_id ticket = ticketId"
    using find_Some_mem [OF f] by simp_all
  have tW: "ticket \<in> set W"
    using tq w by (simp add: W_def)
  have pos: "getTicketPosition st ticketId = Some (findIndex (\<lambda>t. ticket_id t = ticketId) S + 1)"
    using f w by (simp add: getTicketPosition_def sort_js_timestamp S_def W_def)
  have "\<exists>x \<in> set S. ticket_id x = ticketId"
    using tW tid by (auto simp: S_def)
  then obtain i where i: "i < length S" "findIndex (\<lambda>t. ticket_id t = ticketId) S = int i"
    "ticket_id (S ! i) = ticketId" "\<forall>j < i. ticket_id (S ! j) \<noteq> ticketId"
    using findIndex_first [of S "\<lambda>t. ticket_id t = ticketId"] by blast
  have iW: "i < length W" using i(1) by (simp add: S_def)
  have r: "getTicketPosition st ticketId = Some (int i + 1)"
    using pos i(2) by simp
  show "\<exists>i < length W. getTicketPosition st ticketId = Some (int i + 1)
           \<and> ticket_id (sort_key timestamp W ! i) = ticketId
           \<and> (\<forall>j < i. ticket_id (sort_key timestamp W ! j) \<noteq> ticketId)"
    using iW r i(3) i(4) unfolding S_def by blast
  show "getTicketPosition st ticketId
             = Some (1 + int (length (filter (\<lambda>u. timestamp u < timestamp ticket) W))
                       + int (length (filter (\<lambda>u. timestamp u = timestamp ticket)
                                             (takeWhile (\<lambda>u. u \<noteq> ticket) W))))"
    if d: "distinct (map ticket_id (queue st))"
  proof -
    have inj: "inj_on ticket_id (set (queue st))" and dq: "distinct (queue st)"
      using d by (simp_all add: distinct_map)
    have "S ! i \<in> set S" using i(1) by simp
    then have "S ! i \<in> set (queue st)" by (simp add: S_def W_def)
    moreover have "ticket_id (S ! i) = ticket_id ticket"
      using i(3) tid by simp
    ultimately have x: "S ! i = ticket"
      using inj_onD [OF inj _ _ tq] by blast
    have dW: "distinct W" using dq by (simp add: W_def)
    have "i = length (filter (\<lambda>u. timestamp u < timestamp ticket) W)
           + length (filter (\<lambda>u. timestamp u = timestamp ticket) (takeWhile (\<lambda>u. u \<noteq> ticket) W))"
      using dW iW x unfolding S_def by (rule sort_key_position)
    then show ?thesis
      using r by simp
  qed
qed

text \<open>
  Claim C9. \<open>getTicketPosition\<close> returns null when no ticket has the id, and when the
  ticket found for the id is not waiting. Otherwise, with \<open>W\<close> the waiting tickets of
  the ticket's service in queue order, it returns one plus the first index at which
  the stable sort of \<open>W\<close> by creation timestamp alone holds a ticket with that id; and
  when ticket ids are unique this 1-based rank is one plus the number of tickets of
  \<open>W\<close> created strictly earlier plus the number created at the same instant that stand
  before the ticket in the queue. Priority plays no part.
\<close>

theorem getTicketPosition_rank:
  "(\<not> (\<exists>t \<in> set (queue st). ticket_id t = ticketId) \<longrightarrow> getTicketPosition st ticketId = None)
   \<and> (find (\<lambda>t. ticket_id t = ticketId) (queue st) = Some ticket \<longrightarrow>
        (ticket_status ticket \<noteq> Waiting \<longrightarrow> getTicketPosition st ticketId = None)
        \<and> (ticket_status ticket = Waiting \<longrightarrow>
             (let W = filter (\<lambda>t. serviceType t = serviceType ticket \<and> ticket_status t = Waiting)
                             (queue st)
              in (\<exists>i < length W. getTicketPosition st ticketId = Some (int i + 1)
                     \<and> ticket_id (sort_key timestamp W ! i) = ticketId
                     \<and> (\<forall>j < i. ticket_id (sort_key timestamp W ! j) \<noteq> ticketId))
                 \<and> (distinct (map ticket_id (queue st)) \<longrightarrow>
                      getTicketPosition st ticketId
                        = Some (1 + int (length (filter (\<lambda>u. timestamp u < timestamp ticket) W))
                                  + int (length (filter (\<lambda>u. timestamp u = timestamp ticket)
                                                        (takeWhile (\<lambda>u. u \<noteq> ticket) W))))))))"
proof (intro conjI impI)
  assume "\<not> (\<exists>t \<in> set (queue st). ticket_id t = ticketId)"
  then have "find (\<lambda>t. ticket_id t = ticketId) (queue st) = None"
    by (simp add: find_None_iff)
  then show "getTicketPosition st ticketId = None"
    by (simp add: getTicketPosition_def)
next
  assume "find (\<lambda>t. ticket_id t = ticketId) (queue st) = Some ticket"
    and "ticket_status ticket \<noteq> Waiting"
  then show "getTicketPosition st ticketId = None"
    by (simp add: getTicketPosition_def)
next
  assume f: "find (\<lambda>t. ticket_id t = ticketId) (queue st) = Some ticket"
    and w: "ticket_status ticket = Waiting"
  show "let W = filter (\<lambda>t. serviceType t = serviceType ticket \<and> ticket_status t = Waiting)
                       (queue st)
        in (\<exists>i < length W. getTicketPosition st ticketId = Some (int i + 1)
               \<and> ticket_id (sort_key timestamp W ! i) = ticketId
               \<and> (\<forall>j < i. ticket_id (sort_key timestamp W ! j) \<noteq> ticketId))
           \<and> (distinct (map ticket_id (queue st)) \<longrightarrow>
                getTicketPosition st ticketId
                  = Some (1 + int (length (filter (\<lambda>u. timestamp u < timestamp ticket) W))
                            + int (length (filter (\<lambda>u. timestamp u = timestamp ticket)
                                                  (takeWhile (\<lambda>u. u \<noteq> ticket) W)))))"
    unfolding Let_def
    using getTicketPosition_waiting(1) [OF f w] getTicketPosition_waiting(2) [OF f w]
    by (intro conjI impI)
qed

theorem getTicketPosition_rank_witness:
  "find (\<lambda>t. ticket_id t = ''general-2000'') (queue aliceBob) = Some bobTicket
   \<and> ticket_status bobTicket = Waiting \<and> priority bobTicket = Vip
   \<and> distinct (map ticket_id (queue aliceBob))
   \<and> getTicketPosition aliceBob ''general-2000'' = Some 2
   \<and> getTicketPosition aliceBob ''general-1000'' = Some 1
   \<and> \<not> (\<exists>t \<in> set (queue aliceBob). ticket_id t = ''general-3000'')
   \<and> getTicketPosition aliceBob ''general-3000'' = None"
proof -
  have fb: "find (\<lambda>t. ticket_id t = ''general-2000'') (queue aliceBob) = Some bobTicket"
    by (simp add: aliceBob_def bobTicket_def)
  have fa: "find (\<lambda>t. ticket_id t = ''general-1000'') (queue aliceBob) = Some aliceTicket"
    by (simp add: aliceBob_def bobTicket_def aliceTicket_def)
  have wb: "ticket_status bobTicket = Waiting" and pb: "priority bobTicket = Vip"
    by (simp_all add: bobTicket_def)
  have wa: "ticket_status aliceTicket = Waiting"
    by (simp add: aliceTicket_def)
  have d: "distinct (map ticket_id (queue aliceBob))"
    by (simp add: aliceBob_def bobTicket_def aliceTicket_def)
  have n: "\<not> (\<exists>t \<in> set (queue aliceBob). ticket_id t = ''general-3000'')"
    by (simp add: aliceBob_def bobTicket_def aliceTicket_def)
  have W: "filter (\<lambda>t. serviceType t = ''general'' \<and> ticket_status t = Waiting) (queue aliceBob)
             = [bobTicket, aliceTicket]"
    by (simp add: aliceBob_def bobTicket_def aliceTicket_def)
  have sb: "serviceType bobTicket = ''general''" and sa: "serviceType aliceTicket = ''general''"
    by (simp_all add: bobTicket_def aliceTicket_def)
  have ne: "bobTicket \<noteq> aliceTicket"
    by (simp add: bobTicket_def aliceTicket_def)
  have ts: "timestamp aliceTicket = 1000" "timestamp bobTicket = 2000"
    by (simp_all add: bobTicket_def aliceTicket_def)
  have "getTicketPosition aliceBob ''general-2000'' = Some 2"
    using getTicketPosition_rank [of aliceBob "''general-2000''" bobTicket] fb wb d
    by (simp add: sb W ts ne Let_def)
  moreover have "getTicketPosition aliceBob ''general-1000'' = Some 1"
    using getTicketPosition_rank [of aliceBob "''general-1000''" aliceTicket] fa wa d
    by (simp add: sa W ts ne Let_def)
  moreover have "getTicketPosition aliceBob ''general-3000'' = None"
    using getTicketPosition_rank [of aliceBob "''general-3000''"] n by blast
  ultimately show ?thesis
    using fb wb pb d n by simp
qed

section \<open>Status transitions\<close>

lemma same_id_same_ticket:
  "distinct (map k xs) \<Longrightarrow> a \<in> set xs \<Longrightarrow> b \<in> set xs \<Longrightarrow> k a = k b \<Longrightarrow> a = b"
  by (auto simp: distinct_map dest: inj_onD)

lemma keyed_update_image:
  assumes d: "distinct (map k xs)"
    and hk: "\<And>u. k (h u) = k u"
    and t: "t \<in> set xs"
    and t': "t' \<in> set (map (\<lambda>u. if k u = v then h u else u) xs)"
    and e: "k t' = k t"
  shows "t' = (if k t = v then h t else t)"
proof -
  obtain u where u: "u \<in> set xs" "t' = (if k u = v then h u else u)"
    using t' by auto
  have "k t' = k u" using u(2) by (simp add: hk)
  then have "k u = k t" using e by simp
  then have "u = t" by (rule same_id_same_ticket [OF d u(1) t])
  then show ?thesis using u(2) by simp
qed

lemma callNext_cases:
  "callNext counterId sType now st = (None, st)
   \<or> (\<exists>nt \<in> set (queue st). ticket_status nt = Waiting
         \<and> queue (snd (callNext counterId sType now st))
             = map (\<lambda>ticket. if ticket_id ticket = ticket_id nt
                       then ticket \<lparr> ticket_status := Serving, counterAssigned := Some counterId,
                                    calledAt := Some now \<rparr>
                       else ticket) (queue st))"
proof (cases "\<exists>t \<in> set (queue st). serviceType t = sType \<and> ticket_status t = Waiting")
  case False
  then show ?thesis by (simp add: callNext_no_ticket)
next
  case w: True
  show ?thesis
  proof (cases "find (\<lambda>c. counter_id c = counterId) (counters st)")
    case None
    then show ?thesis by (simp add: callNext_bad_counter)
  next
    case (Some c)
    show ?thesis
    proof (cases "counter_status c = Active")
      case False
      with Some show ?thesis by (simp add: callNext_bad_counter)
    next
      case True
      have "nextWaiting st sType \<in> set (queue st)" "ticket_status (nextWaiting st sType) = Waiting"
        using nextWaiting_props [OF w] by simp_all
      moreover have "queue (snd (callNext counterId sType now st))
             = map (\<lambda>ticket. if ticket_id ticket = ticket_id (nextWaiting st sType)
                       then ticket \<lparr> ticket_status := Serving, counterAssigned := Some counterId,
                                    calledAt := Some now \<rparr>
                       else ticket) (queue st)"
        by (simp add: callNext_success [OF w Some True])
      ultimately show ?thesis by blast
    qed
  qed
qed

lemma completeService_cases:
  "completeService ticketId nts now st = st
   \<or> (\<exists>ticket \<in> set (queue st). ticket_id ticket = ticketId \<and> ticket_status ticket = Serving
         \<and> queue (completeService ticketId nts now st)
             = map (\<lambda>t. if ticket_id t = ticketId
                         then t \<lparr> ticket_status := Completed, completedAt := Some now,
                                 ticket_notes := nts \<rparr>
                         else t) (queue st))"
proof (cases "find (\<lambda>t. ticket_id t = ticketId) (queue st)")
  case None
  then show ?thesis by (simp add: completeService_noop)
next
  case (Some ticket)
  show ?thesis
  proof (cases "ticket_status ticket = Serving")
    case False
    with Some show ?thesis by (simp add: completeService_noop)
  next
    case True
    have "ticket \<in> set (queue st)" "ticket_id ticket = ticketId"
      using find_Some_mem [OF Some] by simp_all
    then show ?thesis
      using True completeService_serving(1) [OF Some True] by blast
  qed
qed

lemma forward_unchanged:
  assumes "queue st' = queue st" "distinct (map ticket_id (queue st))"
    "t \<in> set (queue st)" "t' \<in> set (queue st')" "ticket_id t' = ticket_id t"
  shows "forwardStep (ticket_status t) (ticket_status t')"
proof -
  have "t' \<in> set (queue st)" using assms(1) assms(4) by simp
  then have "t' = t" using assms(3) assms(5) by (rule same_id_same_ticket [OF assms(2)])
  then show ?thesis by (simp add: forwardStep_def)
qed

lemma forward_addToQueue:
  assumes d: "distinct (map ticket_id (queue (snd (addToQueue engine idNow tsNow sType cName purp prio st))))"
    and t: "t \<in> set (queue st)"
    and t': "t' \<in> set (queue (snd (addToQueue engine idNow tsNow sType cName purp prio st)))"
    and e: "ticket_id t' = ticket_id t"
  shows "forwardStep (ticket_status t) (ticket_status t')"
proof -
  have "set (queue st) \<subseteq> set (queue (snd (addToQueue engine idNow tsNow sType cName purp prio st)))"
    using addToQueue_queue [of engine idNow tsNow sType cName purp prio st]
    by (auto simp: set_arraySort)
  then have tin: "t \<in> set (queue (snd (addToQueue engine idNow tsNow sType cName purp prio st)))"
    using t by blast
  have "t' = t" by (rule same_id_same_ticket [OF d t' tin e])
  then show ?thesis by (simp add: forwardStep_def)
qed

lemma forward_callNext:
  assumes d: "distinct (map ticket_id (queue st))"
    and t: "t \<in> set (queue st)"
    and t': "t' \<in> set (queue (snd (callNext counterId sType now st)))"
    and e: "ticket_id t' = ticket_id t"
  shows "forwardStep (ticket_status t) (ticket_status t')"
  using callNext_cases [of counterId sType now st]
proof
  assume "callNext counterId sType now st = (None, st)"
  then have "queue (snd (callNext counterId sType now st)) = queue st" by simp
  then show ?thesis using d t t' e by (rule forward_unchanged)
next
  assume "\<exists>nt \<in> set (queue st). ticket_status nt = Waiting
         \<and> queue (snd (callNext counterId sType now st))
             = map (\<lambda>ticket. if ticket_id ticket = ticket_id nt
                       then ticket \<lparr> ticket_status := Serving, counterAssigned := Some counterId,
                                    calledAt := Some now \<rparr>
                       else ticket) (queue st)"
  then obtain nt where nt: "nt \<in> set (queue st)" "ticket_status nt = Waiting"
    and q: "queue (snd (callNext counterId sType now st))
             = map (\<lambda>ticket. if ticket_id ticket = ticket_id nt
                       then ticket \<lparr> ticket_status := Serving, counterAssigned := Some counterId,
                                    calledAt := Some now \<rparr>
                       else ticket) (queue st)"
    by blast
  have img: "t' = (if ticket_id t = ticket_id nt
              then t \<lparr> ticket_status := Serving, counterAssigned := Some counterId, calledAt := Some now \<rparr>
              else t)"
    using d _ t t' [unfolded q] e by (rule keyed_update_image) simp
  show ?thesis
  proof (cases "ticket_id t = ticket_id nt")
    case True
    then have "t = nt" by (rule same_id_same_ticket [OF d t nt(1)])
    then show ?thesis using img True nt(2) by (simp add: forwardStep_def)
  next
    case False
    then show ?thesis using img by (simp add: forwardStep_def)
  qed
qed

lemma forward_completeService:
  assumes d: "distinct (map ticket_id (queue st))"
    and t: "t \<in> set (queue st)"
    and t': "t' \<in> set (queue (completeService ticketId nts now st))"
    and e: "ticket_id t' = ticket_id t"
  shows "forwardStep (ticket_status t) (ticket_status t')"
  using completeService_cases [of ticketId nts now st]
proof
  assume "completeService ticketId nts now st = st"
  then have "queue (completeService ticketId nts now st) = queue st" by simp
  then show ?thesis using d t t' e by (rule forward_unchanged)
next
  assume "\<exists>ticket \<in> set (queue st). ticket_id ticket = ticketId \<and> ticket_status ticket = Serving
         \<and> queue (completeService ticketId nts now st)
             = map (\<lambda>t. if ticket_id t = ticketId
                         then t \<lparr> ticket_status := Completed, completedAt := Some now,
                                 ticket_notes := nts \<rparr>
                         else t) (queue st)"
  then obtain ticket where tk: "ticket \<in> set (queue st)" "ticket_id ticket = ticketId"
      "ticket_status ticket = Serving"
    and q: "queue (completeService ticketId nts now st)
             = map (\<lambda>t. if ticket_id t = ticketId
                         then t \<lparr> ticket_status := Completed, completedAt := Some now,
                                 ticket_notes := nts \<rparr>
                         else t) (queue st)"
    by blast
  have img: "t' = (if ticket_id t = ticketId
              then t \<lparr> ticket_status := Completed, completedAt := Some now, ticket_notes := nts \<rparr>
              else t)"
    using d _ t t' [unfolded q] e by (rule keyed_update_image) simp
  show ?thesis
  proof (cases "ticket_id t = ticketId")
    case True
    then have "ticket_id t = ticket_id ticket" using tk(2) by simp
    then have "t = ticket" by (rule same_id_same_ticket [OF d t tk(1)])
    then show ?thesis using img True tk(3) by (simp add: forwardStep_def)
  next
    case False
    then show ?thesis using img by (simp add: forwardStep_def)
  qed
qed

lemma callNext_aliceBob_queue:
  "queue (perform (CallNext 1 ''general'' 3000) aliceBob)
     = [bobTicket \<lparr> ticket_status := Serving, counterAssigned := Some 1, calledAt := Some 3000 \<rparr>,
        aliceTicket]"
  by (simp add: recomputeWaiting_queue callNext_def sort_js_def comparePriority_def aliceBob_def
      bobTicket_def aliceTicket_def initialCounters_def)

text \<open>
  Claim C6 as stated fails: \<open>updateTicket\<close> writes whatever status it is given. On
  Alice's waiting ticket it sets completed directly, and then waiting again.
\<close>

theorem updateTicket_status_counterexample:
  "map ticket_status (queue oneWaitingSettled) = [Waiting]
   \<and> map ticket_status
       (queue (perform (UpdateTicket ''general-1000'' (noUpdates \<lparr> u_status := Some Completed \<rparr>))
                 oneWaitingSettled)) = [Completed]
   \<and> map ticket_status
       (queue (perform (UpdateTicket ''general-1000'' (noUpdates \<lparr> u_status := Some Waiting \<rparr>))
                 (perform (UpdateTicket ''general-1000'' (noUpdates \<lparr> u_status := Some Completed \<rparr>))
                    oneWaitingSettled))) = [Waiting]"
  by (simp add: recomputeWaiting_queue updateTicket_def applyUpdates_def override_def
      noUpdates_def oneWaitingSettled_def)

text \<open>
  Claim C6, amended. For every operation of the public interface other than
  \<open>updateTicket\<close>, applied to a state in which ticket ids are unique and leaving them
  unique: a ticket of the queue before and the ticket with the same id in the queue
  after are related by a forward step of the status, that is, the status is unchanged
  or moves from waiting to serving or from serving to completed. (\<open>clearAllData\<close>
  removes every ticket.)
\<close>

theorem status_moves_forward:
  assumes nu: "\<not> isUpdateTicket op"
    and d: "distinct (map ticket_id (queue st))"
    and d': "distinct (map ticket_id (queue (perform op st)))"
    and t: "t \<in> set (queue st)"
    and t': "t' \<in> set (queue (perform op st))"
    and e: "ticket_id t' = ticket_id t"
  shows "forwardStep (ticket_status t) (ticket_status t')"
proof (cases op)
  case (AddToQueue engine idNow tsNow sType cName purp prio)
  show ?thesis
    using d' t t' e unfolding AddToQueue perform.simps recomputeWaiting_queue
    by (rule forward_addToQueue)
next
  case (CallNext counterId sType now)
  show ?thesis
    using d t t' e unfolding CallNext perform.simps recomputeWaiting_queue
    by (rule forward_callNext)
next
  case (CompleteService ticketId nts now)
  show ?thesis
    using d t t' e unfolding CompleteService perform.simps recomputeWaiting_queue
    by (rule forward_completeService)
next
  case (UpdateTicket ticketId updates)
  then show ?thesis using nu by simp
next
  case (SetCounterStatus counterId status)
  have "queue (perform op st) = queue st"
    by (simp add: SetCounterStatus recomputeWaiting_queue setCounterStatus_def)
  then show ?thesis using d t t' e by (rule forward_unchanged)
next
  case (SetCounterService counterId sType)
  have "queue (perform op st) = queue st"
    by (simp add: SetCounterService recomputeWaiting_queue setCounterService_def)
  then show ?thesis using d t t' e by (rule forward_unchanged)
next
  case ClearAllData
  have "queue (perform op st) = []"
    by (simp add: ClearAllData recomputeWaiting_queue clearAllData_def)
  then show ?thesis using t' by simp
qed

theorem status_moves_forward_witness:
  "\<not> isUpdateTicket (CallNext 1 ''general'' 3000)
   \<and> distinct (map ticket_id (queue aliceBob))
   \<and> distinct (map ticket_id (queue (perform (CallNext 1 ''general'' 3000) aliceBob)))
   \<and> bobTicket \<in> set (queue aliceBob)
   \<and> bobTicket \<lparr> ticket_status := Serving, counterAssigned := Some 1, calledAt := Some 3000 \<rparr>
        \<in> set (queue (perform (CallNext 1 ''general'' 3000) aliceBob))
   \<and> ticket_status bobTicket = Waiting
   \<and> forwardStep (ticket_status bobTicket) Serving"
proof -
  let ?t' = "bobTicket \<lparr> ticket_status := Serving, counterAssigned := Some 1, calledAt := Some 3000 \<rparr>"
  have nu: "\<not> isUpdateTicket (CallNext 1 ''general'' 3000)" by simp
  have d: "distinct (map ticket_id (queue aliceBob))"
    by (simp add: aliceBob_def bobTicket_def aliceTicket_def)
  have d': "distinct (map ticket_id (queue (perform (CallNext 1 ''general'' 3000) aliceBob)))"
    unfolding callNext_aliceBob_queue by (simp add: bobTicket_def aliceTicket_def)
  have t: "bobTicket \<in> set (queue aliceBob)" by (simp add: aliceBob_def)
  have t': "?t' \<in> set (queue (perform (CallNext 1 ''general'' 3000) aliceBob))"
    unfolding callNext_aliceBob_queue by simp
  have e: "ticket_id ?t' = ticket_id bobTicket" by simp
  have w: "ticket_status bobTicket = Waiting" by (simp add: bobTicket_def)
  have "forwardStep (ticket_status bobTicket) (ticket_status ?t')"
    by (rule status_moves_forward [OF nu d d' t t' e])
  then have "forwardStep (ticket_status bobTicket) Serving" by simp
  with nu d d' t t' w show ?thesis by blast
qed

end
